theory Spec2Isabelle
  imports Main
begin

section \<open>The scheduler scraper (src/src/scraper.ts)\<close>

text \<open>
  The program crawls four levels of pages: the catalog directory (departments), one
  listing per department (course codes), one detail page per course (title and schedule
  links) and one sections page per schedule. It is embedded function by function, with
  the names of the source.

  Strings are \<open>string\<close>; a character stands for one UTF-16 code unit below 256.
\<close>

subsection \<open>Constants and records\<close>

definition BASE_URL :: string where
  "BASE_URL = ''https://web.uvic.ca/calendar2020-01/CDs/''"

definition SECTIONS_URL :: string where
  "SECTIONS_URL = ''https://www.uvic.ca/BAN1P/bwckctlg.p_disp_listcrse''"

text \<open>\<^verbatim>\<open>interface Section\<close> and \<^verbatim>\<open>interface Course\<close>; the field \<^verbatim>\<open>term\<close> of the source is
  \<open>term_in\<close> here, \<open>term\<close> being a keyword.\<close>

record Section =
  crn :: string
  sectionType :: string
  sectionNumber :: string

record Course =
  code :: string
  sections :: "Section list"
  subject :: string
  title :: string
  term_in :: string

subsection \<open>The string operations of JavaScript that the program calls\<close>

text \<open>\<^verbatim>\<open>s.indexOf(c)\<close>: the index of the first occurrence, \<open>-1\<close> when there is none.\<close>

fun indexOf :: "string \<Rightarrow> char \<Rightarrow> int" where
  "indexOf [] c = - 1"
| "indexOf (x # xs) c =
     (if x = c then 0 else (let i = indexOf xs c in if i < 0 then - 1 else i + 1))"

text \<open>\<^verbatim>\<open>s.slice(start, end)\<close>: a negative index counts from the end, both indexes are
  clamped to the string, and the result is empty when they cross.\<close>

definition slice :: "string \<Rightarrow> int \<Rightarrow> int \<Rightarrow> string" where
  "slice s start end =
     (let n = int (length s);
          from = (if start < 0 then max (n + start) 0 else min start n);
          to = (if end < 0 then max (n + end) 0 else min end n)
      in take (nat (to - from)) (drop (nat from) s))"

text \<open>\<^verbatim>\<open>s.charAt(i)\<close>: the one-character string at \<open>i\<close>, the empty string out of range.\<close>

definition charAt :: "string \<Rightarrow> nat \<Rightarrow> string" where
  "charAt s i = (if i < length s then [s ! i] else [])"

text \<open>\<^verbatim>\<open>s.split('-')\<close>: the segments between the dashes. A dash opens a new segment,
  another character joins the first segment of the rest. The array is never empty, so
  the first case below never arises.\<close>

fun split_dash :: "string \<Rightarrow> string list" where
  "split_dash [] = [[]]"
| "split_dash (c # cs) =
     (case split_dash cs of
        [] \<Rightarrow> (if c = CHR ''-'' then [[], []] else [[c]])
      | seg # segs \<Rightarrow> (if c = CHR ''-'' then [] # seg # segs else (c # seg) # segs))"

subsection \<open>Character classes of the regular expressions\<close>

definition is_upper :: "char \<Rightarrow> bool" where
  "is_upper c = (c \<in> set ''ABCDEFGHIJKLMNOPQRSTUVWXYZ'')"

definition is_lower :: "char \<Rightarrow> bool" where
  "is_lower c = (c \<in> set ''abcdefghijklmnopqrstuvwxyz'')"

definition is_digit :: "char \<Rightarrow> bool" where
  "is_digit c = (c \<in> set ''0123456789'')"

definition is_digit07 :: "char \<Rightarrow> bool" where
  "is_digit07 c = (c \<in> set ''01234567'')"

text \<open>\<^verbatim>\<open>\w\<close> is \<^verbatim>\<open>[A-Za-z0-9_]\<close>.\<close>

definition is_word :: "char \<Rightarrow> bool" where
  "is_word c = (is_upper c \<or> is_lower c \<or> is_digit c \<or> c = CHR ''_'')"

text \<open>\<^verbatim>\<open>\s\<close> below code unit 256: tab, line feed, vertical tab, form feed, carriage return,
  space and no-break space. \<^verbatim>\<open>trim()\<close> strips the same characters.\<close>

definition is_space :: "char \<Rightarrow> bool" where
  "is_space c =
     (c \<in> set [CHR 0x09, CHR 0x0A, CHR 0x0B, CHR 0x0C, CHR 0x0D, CHR 0x20, CHR 0xA0])"

text \<open>\<^verbatim>\<open>.\<close> matches every character but a line terminator.\<close>

definition is_line_terminator :: "char \<Rightarrow> bool" where
  "is_line_terminator c = (c \<in> set [CHR 0x0A, CHR 0x0D])"

definition trim :: "string \<Rightarrow> string" where
  "trim s = rev (dropWhile is_space (rev (dropWhile is_space s)))"

subsection \<open>The four regular expressions\<close>

text \<open>\<^verbatim>\<open>/^[A-Z]+/g.test(s)\<close>: the longest run of upper-case letters at the start of \<open>s\<close> is
  not empty. The literal is evaluated anew at every call, so \<^verbatim>\<open>lastIndex\<close> is 0.\<close>

definition department_pattern :: "string \<Rightarrow> bool" where
  "department_pattern s = (takeWhile is_upper s \<noteq> [])"

text \<open>\<^verbatim>\<open>/^[0-7]+/g.test(s)\<close>.\<close>

definition course_pattern :: "string \<Rightarrow> bool" where
  "course_pattern s = (takeWhile is_digit07 s \<noteq> [])"

text \<open>\<^verbatim>\<open>/[\w\s]*-[\d\s]*-.*-.*/g.test(s)\<close>, not anchored. \<open>dot_star_dash r\<close> is
  \<^verbatim>\<open>.*-.*\<close> at the start of \<open>r\<close>: a dash before any line terminator.
  \<open>after_first_dash r\<close> is \<^verbatim>\<open>[\d\s]*-.*-.*\<close> at the start of \<open>r\<close>: the run of digits and
  spaces must stop at a dash, since a dash is neither. \<^verbatim>\<open>[\w\s]*\<close> may be empty and the
  search may start anywhere, so the whole expression matches when some dash of the text
  is followed by a match of the rest.\<close>

definition dot_star_dash :: "string \<Rightarrow> bool" where
  "dot_star_dash r = (CHR ''-'' \<in> set (takeWhile (\<lambda>c. \<not> is_line_terminator c) r))"

definition after_first_dash :: "string \<Rightarrow> bool" where
  "after_first_dash r =
     (case dropWhile (\<lambda>c. is_digit c \<or> is_space c) r of
        [] \<Rightarrow> False
      | c # r' \<Rightarrow> c = CHR ''-'' \<and> dot_star_dash r')"

fun section_pattern :: "string \<Rightarrow> bool" where
  "section_pattern [] = False"
| "section_pattern (c # cs) = ((c = CHR ''-'' \<and> after_first_dash cs) \<or> section_pattern cs)"

text \<open>\<^verbatim>\<open>s.match(/term_in=(\d+)/)\<close>, the capture group of the leftmost match: the search
  moves right until \<^verbatim>\<open>term_in=\<close> is followed by a digit, and \<^verbatim>\<open>\d+\<close> takes every digit
  that follows. \<open>None\<close> is \<^verbatim>\<open>null\<close>.\<close>

fun term_in_match :: "string \<Rightarrow> string option" where
  "term_in_match [] = None"
| "term_in_match (c # cs) =
     (if take 8 (c # cs) = ''term_in='' \<and> takeWhile is_digit (drop 8 (c # cs)) \<noteq> []
      then Some (takeWhile is_digit (drop 8 (c # cs)))
      else term_in_match cs)"

subsection \<open>Pages, the network and errors\<close>

text \<open>
  \<^verbatim>\<open>cheerio.load(response)\<close> is a library call; a page is what the selectors of the
  program read from it: the \<^verbatim>\<open>a\<close> elements in document order, each with its \<^verbatim>\<open>href\<close>
  attribute (\<open>None\<close> when absent), its text and whether it lies inside the element with
  id \<^verbatim>\<open>schedules\<close>, and the texts of the \<^verbatim>\<open>h2\<close> elements in document order.

  The network is a function from a URL to the page served there; \<open>None\<close> is a request
  that rejects. Every request settles, and a URL requested twice answers the same.
\<close>

record anchor =
  href :: "string option"
  link_text :: string
  in_schedules :: bool

record page =
  anchors :: "anchor list"
  h2_texts :: "string list"

type_synonym world = "string \<Rightarrow> page option"

datatype error =
    FailedDepartmentData
  | FailedCourseData
  | FailedSections
  | FailedAvailableSections
  | TypeError

subsection \<open>getDepartments\<close>

text \<open>The body of the \<^verbatim>\<open>each\<close> callback, on the array built so far.\<close>

definition department_each :: "anchor \<Rightarrow> string list \<Rightarrow> string list" where
  "department_each element departments =
     (case href element of
        None \<Rightarrow> departments
      | Some department \<Rightarrow>
          if department \<noteq> [] \<and> department_pattern department
          then departments @ [slice department 0 (- 1)]
          else departments)"

definition getDepartments :: "world \<Rightarrow> error + string list" where
  "getDepartments w =
     (case w BASE_URL of
        None \<Rightarrow> Inl FailedDepartmentData
      | Some p \<Rightarrow> Inr (fold department_each (anchors p) []))"

subsection \<open>getCourseCodes\<close>

definition course_each :: "anchor \<Rightarrow> string list \<Rightarrow> string list" where
  "course_each element courses =
     (case href element of
        None \<Rightarrow> courses
      | Some course \<Rightarrow>
          if course \<noteq> [] \<and> course_pattern course
          then courses @ [slice course 0 (indexOf course (CHR ''.''))]
          else courses)"

definition getCourseCodes :: "world \<Rightarrow> string \<Rightarrow> error + string list" where
  "getCourseCodes w department =
     (case w (BASE_URL @ department) of
        None \<Rightarrow> Inl FailedCourseData
      | Some p \<Rightarrow> Inr (fold course_each (anchors p) []))"

subsection \<open>getSections\<close>

text \<open>The record built from one link text. \<^verbatim>\<open>linkArray[1].trim()\<close> and
  \<^verbatim>\<open>linkArray[3].charAt(1)\<close> throw a TypeError on \<^verbatim>\<open>undefined\<close>, when the array is
  too short.\<close>

definition section_of :: "string \<Rightarrow> error + Section" where
  "section_of linkText =
     (let linkArray = split_dash linkText in
      if length linkArray < 2 then Inl TypeError
      else if length linkArray < 4 then Inl TypeError
      else Inr \<lparr>crn = trim (linkArray ! 1),
                sectionType = charAt (linkArray ! 3) 1,
                sectionNumber = slice (linkArray ! 3) 2 4\<rparr>)"

definition section_each :: "anchor \<Rightarrow> Section list \<Rightarrow> error + Section list" where
  "section_each element sections' =
     (let linkText = link_text element in
      if linkText \<noteq> [] \<and> section_pattern linkText
      then (case section_of linkText of
              Inl e \<Rightarrow> Inl e
            | Inr s \<Rightarrow> Inr (sections' @ [s]))
      else Inr sections')"

fun sections_loop :: "anchor list \<Rightarrow> Section list \<Rightarrow> error + Section list" where
  "sections_loop [] sections' = Inr sections'"
| "sections_loop (element # rest) sections' =
     (case section_each element sections' of
        Inl e \<Rightarrow> Inl e
      | Inr sections'' \<Rightarrow> sections_loop rest sections'')"

text \<open>The \<^verbatim>\<open>catch\<close> turns every error of the body into \<^verbatim>\<open>Failed to get sections\<close>.\<close>

definition getSections :: "world \<Rightarrow> string \<Rightarrow> error + Section list" where
  "getSections w params =
     (case w (SECTIONS_URL @ params) of
        None \<Rightarrow> Inl FailedSections
      | Some p \<Rightarrow>
          (case sections_loop (anchors p) [] of
             Inl e \<Rightarrow> Inl FailedSections
           | Inr sections' \<Rightarrow> Inr sections'))"

subsection \<open>getOffered\<close>

text \<open>\<^verbatim>\<open>$('h2').text()\<close> is the combined text of all the matched elements.\<close>

definition page_title :: "page \<Rightarrow> string" where
  "page_title p = concat (h2_texts p)"

definition schedule_each :: "anchor \<Rightarrow> string list \<Rightarrow> string list" where
  "schedule_each element schedules =
     (case href element of
        None \<Rightarrow> schedules
      | Some temp \<Rightarrow>
          if temp \<noteq> []
          then schedules @ [slice temp (indexOf temp (CHR ''?'')) (int (length temp))]
          else schedules)"

definition page_schedules :: "page \<Rightarrow> string list" where
  "page_schedules p = fold schedule_each (filter in_schedules (anchors p)) []"

text \<open>\<^verbatim>\<open>(schedule.match(/term_in=(\d+)/) || [])[1]\<close> followed by \<^verbatim>\<open>term || '0'\<close>.\<close>

definition course_term :: "string \<Rightarrow> string" where
  "course_term schedule =
     (case term_in_match schedule of
        None \<Rightarrow> ''0''
      | Some t \<Rightarrow> if t = [] then ''0'' else t)"

text \<open>
  The \<^verbatim>\<open>for\<close> loop over the schedules. Each turn awaits \<^verbatim>\<open>getSections(schedule)\<close> before
  the next one starts. Beside the courses built so far, the loop carries the list of the
  URLs requested so far, in the order of the requests; \<open>getSections\<close> makes one
  request. An error leaves the loop and is caught by the \<^verbatim>\<open>catch\<close> of \<open>getOffered\<close>.
\<close>

fun offered_loop ::
  "world \<Rightarrow> string \<Rightarrow> string \<Rightarrow> string \<Rightarrow> string list \<Rightarrow> Course list \<Rightarrow> string list
    \<Rightarrow> string list \<times> (error + Course list)" where
  "offered_loop w subject' code' title' [] courses requested = (requested, Inr courses)"
| "offered_loop w subject' code' title' (schedule # rest) courses requested =
     (case getSections w schedule of
        Inl e \<Rightarrow> (requested @ [SECTIONS_URL @ schedule], Inl FailedAvailableSections)
      | Inr sections' \<Rightarrow>
          offered_loop w subject' code' title' rest
            (if sections' \<noteq> []
             then courses @ [\<lparr>code = code', sections = sections', subject = subject',
                              title = title', term_in = course_term schedule\<rparr>]
             else courses)
            (requested @ [SECTIONS_URL @ schedule]))"

definition course_url :: "string \<Rightarrow> string \<Rightarrow> string" where
  "course_url subject' code' = BASE_URL @ subject' @ ''/'' @ code' @ ''.html''"

definition getOffered_run :: "world \<Rightarrow> string \<Rightarrow> string \<Rightarrow> string list \<times> (error + Course list)" where
  "getOffered_run w subject' code' =
     (case w (course_url subject' code') of
        None \<Rightarrow> ([course_url subject' code'], Inl FailedAvailableSections)
      | Some p \<Rightarrow>
          offered_loop w subject' code' (page_title p) (page_schedules p) []
            [course_url subject' code'])"

definition getOffered :: "world \<Rightarrow> string \<Rightarrow> string \<Rightarrow> error + Course list" where
  "getOffered w subject' code' = snd (getOffered_run w subject' code')"

subsection \<open>Promise.all\<close>

text \<open>
  \<^verbatim>\<open>Promise.all\<close> keeps one slot per promise. A promise that fulfils stores its value in
  its own slot; the first promise that rejects rejects the whole, and what settles later
  changes nothing. When every slot is filled the whole fulfils with the slots in the
  order of the promises. The promises settle in the order of their completion times, a
  parameter here (\<open>time i\<close> for the promise at index \<open>i\<close>). \<open>None\<close> is a whole that
  never settles.
\<close>

datatype 'a all_state = Pending "'a option list" | Rejected error

fun settle :: "(error + 'a) list \<Rightarrow> nat \<Rightarrow> 'a all_state \<Rightarrow> 'a all_state" where
  "settle ps i (Rejected e) = Rejected e"
| "settle ps i (Pending slots) =
     (case ps ! i of
        Inl e \<Rightarrow> Rejected e
      | Inr v \<Rightarrow> Pending (slots[i := Some v]))"

definition Promise_all :: "(nat \<Rightarrow> nat) \<Rightarrow> (error + 'a) list \<Rightarrow> (error + 'a list) option" where
  "Promise_all time ps =
     (case fold (settle ps) (sort_key time [0..<length ps])
             (Pending (replicate (length ps) None)) of
        Rejected e \<Rightarrow> Some (Inl e)
      | Pending slots \<Rightarrow> map_option Inr (those slots))"

subsection \<open>main\<close>

text \<open>What \<open>main\<close> hands over when it returns: \<open>results\<close>, written to
  \<^verbatim>\<open>courses.json\<close>, and \<open>failed\<close>, printed when it is not empty.\<close>

record crawl =
  results :: "Course list"
  failed :: "string list"

text \<open>\<open>timing department i\<close> is the completion time of the \<open>i\<close>-th call of
  \<open>getOffered\<close> of the department.\<close>

type_synonym timing = "string \<Rightarrow> nat \<Rightarrow> nat"

fun main_loop :: "timing \<Rightarrow> world \<Rightarrow> string list \<Rightarrow> crawl \<Rightarrow> crawl option" where
  "main_loop t w [] st = Some st"
| "main_loop t w (department # rest) st =
     (case getCourseCodes w department of
        Inl e \<Rightarrow> main_loop t w rest (st\<lparr>failed := failed st @ [department]\<rparr>)
      | Inr courseCodes \<Rightarrow>
          (case Promise_all (t department) (map (getOffered w department) courseCodes) of
             None \<Rightarrow> None
           | Some (Inl e) \<Rightarrow> main_loop t w rest (st\<lparr>failed := failed st @ [department]\<rparr>)
           | Some (Inr courses) \<Rightarrow>
               main_loop t w rest (st\<lparr>results := results st @ concat courses\<rparr>)))"

text \<open>\<open>getDepartments\<close> is awaited outside every \<^verbatim>\<open>try\<close>: its error is the error of
  \<open>main\<close>. \<open>None\<close> is a run that does not return.\<close>

definition main :: "timing \<Rightarrow> world \<Rightarrow> (error + crawl) option" where
  "main t w =
     (case getDepartments w of
        Inl e \<Rightarrow> Some (Inl e)
      | Inr departments \<Rightarrow>
          map_option Inr (main_loop t w departments \<lparr>results = [], failed = []\<rparr>))"

subsection \<open>Notions of the specification\<close>

text \<open>The \<^verbatim>\<open>href\<close> values of a page, in document order.\<close>

definition targets :: "page \<Rightarrow> string list" where
  "targets p = concat (map (\<lambda>a. case href a of None \<Rightarrow> [] | Some t \<Rightarrow> [t]) (anchors p))"

text \<open>The words of the specification for the department code of a target: the target
  with its trailing path separator stripped.\<close>

definition strip_trailing_separator :: "string \<Rightarrow> string" where
  "strip_trailing_separator t = (if t \<noteq> [] \<and> last t = CHR ''/'' then butlast t else t)"

definition begins_with_upper :: "string \<Rightarrow> bool" where
  "begins_with_upper t = (case t of [] \<Rightarrow> False | c # _ \<Rightarrow> is_upper c)"

text \<open>A catalog directory whose only link is a file named in upper case.\<close>

definition readme_world :: world where
  "readme_world url =
     (if url = BASE_URL
      then Some \<lparr>anchors = [\<lparr>href = Some ''README'', link_text = ''README'', in_schedules = False\<rparr>],
                 h2_texts = []\<rparr>
      else None)"

subsection \<open>Example catalogs\<close>

text \<open>A catalog with the departments CSC and MATH. CSC lists the course 225, whose page
  has two schedules: the first has two sections, the second none and no term. No page is
  served for MATH.\<close>

definition catalog_page :: page where
  "catalog_page =
     \<lparr>anchors =
        [\<lparr>href = Some ''?C=N;O=D'', link_text = ''Name'', in_schedules = False\<rparr>,
         \<lparr>href = Some ''/calendar2020-01/'', link_text = ''Parent Directory'', in_schedules = False\<rparr>,
         \<lparr>href = Some ''CSC/'', link_text = ''CSC/'', in_schedules = False\<rparr>,
         \<lparr>href = None, link_text = ''top'', in_schedules = False\<rparr>,
         \<lparr>href = Some ''MATH/'', link_text = ''MATH/'', in_schedules = False\<rparr>],
      h2_texts = []\<rparr>"

definition csc_page :: page where
  "csc_page =
     \<lparr>anchors =
        [\<lparr>href = Some ''?C=N;O=D'', link_text = ''Name'', in_schedules = False\<rparr>,
         \<lparr>href = Some ''225.html'', link_text = ''225.html'', in_schedules = False\<rparr>,
         \<lparr>href = Some ''CTs.html'', link_text = ''CTs.html'', in_schedules = False\<rparr>],
      h2_texts = []\<rparr>"

definition fall_schedule :: string where
  "fall_schedule = ''?term_in=202009&subj_in=CSC&crse_in=225''"

definition spring_schedule :: string where
  "spring_schedule = ''?subj_in=CSC&crse_in=225''"

definition csc225_page :: page where
  "csc225_page =
     \<lparr>anchors =
        [\<lparr>href = Some ''../index.html'', link_text = ''Calendar'', in_schedules = False\<rparr>,
         \<lparr>href = Some (SECTIONS_URL @ fall_schedule), link_text = ''September 2020'',
           in_schedules = True\<rparr>,
         \<lparr>href = Some (SECTIONS_URL @ spring_schedule), link_text = ''January 2021'',
           in_schedules = True\<rparr>],
      h2_texts = ['' Algorithms and Data Structures I '']\<rparr>"

definition fall_sections_page :: page where
  "fall_sections_page =
     \<lparr>anchors =
        [\<lparr>href = Some ''/help'', link_text = ''Help'', in_schedules = False\<rparr>,
         \<lparr>href = Some ''/a'', link_text = ''Algorithms I - 12345 - CSC 225 - A01'',
           in_schedules = False\<rparr>,
         \<lparr>href = Some ''/b'', link_text = ''Algorithms I - 12346 - CSC 225 - B01'',
           in_schedules = False\<rparr>],
      h2_texts = []\<rparr>"

definition empty_page :: page where
  "empty_page = \<lparr>anchors = [], h2_texts = []\<rparr>"

definition demo_world :: world where
  "demo_world url =
     (if url = BASE_URL then Some catalog_page
      else if url = BASE_URL @ ''CSC'' then Some csc_page
      else if url = BASE_URL @ ''CSC/225.html'' then Some csc225_page
      else if url = SECTIONS_URL @ fall_schedule then Some fall_sections_page
      else if url = SECTIONS_URL @ spring_schedule then Some empty_page
      else None)"

subsection \<open>Notions and examples for the Course-Code Extractor\<close>

text \<open>The words of the specification for the course code of a target: the substring
  before its first dot.\<close>

definition before_first_dot :: "string \<Rightarrow> string" where
  "before_first_dot t = takeWhile (\<lambda>c. c \<noteq> CHR ''.'') t"

definition begins_with_digit07 :: "string \<Rightarrow> bool" where
  "begins_with_digit07 t = (case t of [] \<Rightarrow> False | c # _ \<Rightarrow> is_digit07 c)"

text \<open>A department listing whose only link has no file extension.\<close>

definition bare_listing_world :: world where
  "bare_listing_world url =
     (if url = BASE_URL @ ''CSC''
      then Some \<lparr>anchors = [\<lparr>href = Some ''225'', link_text = ''225'', in_schedules = False\<rparr>],
                 h2_texts = []\<rparr>
      else None)"

subsection \<open>Notions for the aggregation and the crawl\<close>

text \<open>Whether the section lookup of a schedule succeeds, and the sections it gives
  (none when it fails).\<close>

definition lookup_ok :: "world \<Rightarrow> string \<Rightarrow> bool" where
  "lookup_ok w schedule = (case getSections w schedule of Inl _ \<Rightarrow> False | Inr _ \<Rightarrow> True)"

definition sections_at :: "world \<Rightarrow> string \<Rightarrow> Section list" where
  "sections_at w schedule = (case getSections w schedule of Inl _ \<Rightarrow> [] | Inr ss \<Rightarrow> ss)"

text \<open>The record of one schedule, and the records of a course page: one for every
  schedule with a section, in the order of the schedules.\<close>

definition course_of :: "world \<Rightarrow> string \<Rightarrow> string \<Rightarrow> string \<Rightarrow> string \<Rightarrow> Course" where
  "course_of w subject' code' title' schedule =
     \<lparr>code = code', sections = sections_at w schedule, subject = subject',
      title = title', term_in = course_term schedule\<rparr>"

definition offered_courses :: "world \<Rightarrow> string \<Rightarrow> string \<Rightarrow> page \<Rightarrow> Course list" where
  "offered_courses w subject' code' p =
     map (course_of w subject' code' (page_title p))
       (filter (\<lambda>schedule. sections_at w schedule \<noteq> []) (page_schedules p))"

text \<open>The records of one course code (none when its aggregation fails), whether the
  processing of a department fails, and the records of a department.\<close>

definition courses_at :: "world \<Rightarrow> string \<Rightarrow> string \<Rightarrow> Course list" where
  "courses_at w department code' =
     (case getOffered w department code' of Inl _ \<Rightarrow> [] | Inr cs \<Rightarrow> cs)"

definition department_fails :: "world \<Rightarrow> string \<Rightarrow> bool" where
  "department_fails w department =
     (case getCourseCodes w department of
        Inl _ \<Rightarrow> True
      | Inr courseCodes \<Rightarrow>
          list_ex (\<lambda>c. case getOffered w department c of Inl _ \<Rightarrow> True | Inr _ \<Rightarrow> False)
            courseCodes)"

definition department_courses :: "world \<Rightarrow> string \<Rightarrow> Course list" where
  "department_courses w department =
     (case getCourseCodes w department of
        Inl _ \<Rightarrow> []
      | Inr courseCodes \<Rightarrow> concat (map (courses_at w department) courseCodes))"

subsection \<open>Example crawl results\<close>

definition csc225_fall :: Course where
  "csc225_fall =
     \<lparr>code = ''225'',
      sections = [\<lparr>crn = ''12345'', sectionType = ''A'', sectionNumber = ''01''\<rparr>,
                  \<lparr>crn = ''12346'', sectionType = ''B'', sectionNumber = ''01''\<rparr>],
      subject = ''CSC'', title = '' Algorithms and Data Structures I '',
      term_in = ''202009''\<rparr>"

definition demo_crawl :: crawl where
  "demo_crawl = \<lparr>results = [csc225_fall], failed = [''MATH'']\<rparr>"

definition by_index :: timing where
  "by_index department i = i"

definition last_first :: timing where
  "last_first department i = 100 - i"

text \<open>The same catalog with MATH served: it lists the course 100, whose page links to
  the first schedule of CSC 225.\<close>

definition math_page :: page where
  "math_page =
     \<lparr>anchors = [\<lparr>href = Some ''100.html'', link_text = ''100.html'', in_schedules = False\<rparr>],
      h2_texts = []\<rparr>"

definition math100_page :: page where
  "math100_page =
     \<lparr>anchors = [\<lparr>href = Some (SECTIONS_URL @ fall_schedule), link_text = ''September 2020'',
                   in_schedules = True\<rparr>],
      h2_texts = [''Calculus I'']\<rparr>"

definition repaired_world :: world where
  "repaired_world url =
     (if url = BASE_URL @ ''MATH'' then Some math_page
      else if url = BASE_URL @ ''MATH/100.html'' then Some math100_page
      else demo_world url)"

subsection \<open>Notions and examples for the Course Aggregator\<close>

text \<open>The words of the specification for the title: the text of the first heading.\<close>

definition first_heading :: "page \<Rightarrow> string" where
  "first_heading p = (case h2_texts p of [] \<Rightarrow> [] | h # _ \<Rightarrow> h)"

text \<open>The page of CSC 225 with a second \<^verbatim>\<open>h2\<close> element.\<close>

definition two_headings_page :: page where
  "two_headings_page =
     \<lparr>anchors =
        [\<lparr>href = Some (SECTIONS_URL @ fall_schedule), link_text = ''September 2020'',
           in_schedules = True\<rparr>],
      h2_texts = [''CSC 225'', ''Prerequisites'']\<rparr>"

definition two_headings_world :: world where
  "two_headings_world url =
     (if url = BASE_URL @ ''CSC/225.html'' then Some two_headings_page else demo_world url)"

text \<open>The example catalog with no answer to the section lookup of the first schedule.\<close>

definition broken_world :: world where
  "broken_world url = (if url = SECTIONS_URL @ fall_schedule then None else demo_world url)"

subsection \<open>Notions for the term of a schedule\<close>

text \<open>\<open>term_in_at s\<close>: the string begins with \<^verbatim>\<open>term_in=\<close> and a digit.
  \<open>term_in_digits s\<close>: somewhere in the string, \<^verbatim>\<open>term_in=\<close> is followed by a digit.\<close>

definition term_in_at :: "string \<Rightarrow> bool" where
  "term_in_at s = (take 8 s = ''term_in='' \<and> takeWhile is_digit (drop 8 s) \<noteq> [])"

fun term_in_digits :: "string \<Rightarrow> bool" where
  "term_in_digits [] = False"
| "term_in_digits (c # cs) = (term_in_at (c # cs) \<or> term_in_digits cs)"

text \<open>The words of the specification for the parameters of a query string: the names
  before the \<^verbatim>\<open>=\<close> of the parts between \<^verbatim>\<open>&\<close>, after the leading \<^verbatim>\<open>?\<close>.\<close>

fun split_ampersand :: "string \<Rightarrow> string list" where
  "split_ampersand [] = [[]]"
| "split_ampersand (c # cs) =
     (case split_ampersand cs of
        [] \<Rightarrow> (if c = CHR ''&'' then [[], []] else [[c]])
      | part # parts \<Rightarrow> (if c = CHR ''&'' then [] # part # parts else (c # part) # parts))"

definition parameter_names :: "string \<Rightarrow> string list" where
  "parameter_names query =
     map (takeWhile (\<lambda>c. c \<noteq> CHR ''=''))
       (split_ampersand (dropWhile (\<lambda>c. c = CHR ''?'') query))"

subsection \<open>Notions and examples for the Section Extractor\<close>

text \<open>The record that \<open>section_of\<close> builds when the link text has four segments.\<close>

definition section_record :: "string \<Rightarrow> Section" where
  "section_record linkText =
     \<lparr>crn = trim (split_dash linkText ! 1),
      sectionType = charAt (split_dash linkText ! 3) 1,
      sectionNumber = slice (split_dash linkText ! 3) 2 4\<rparr>"

definition section_link :: "anchor \<Rightarrow> bool" where
  "section_link a = (link_text a \<noteq> [] \<and> section_pattern (link_text a))"

text \<open>A sections page with the link text of the specification.\<close>

definition lecture_world :: world where
  "lecture_world url =
     (if url = SECTIONS_URL @ ''?term_in=202009''
      then Some \<lparr>anchors = [\<lparr>href = Some ''/x'', link_text = ''LEC - 12345 - A - L01 something'',
                              in_schedules = False\<rparr>],
                 h2_texts = []\<rparr>
      else None)"

text \<open>A sections page with two link texts that the pattern accepts: three dashes and
  nothing else, and five segments the second of which is a letter.\<close>

definition dashes_world :: world where
  "dashes_world url =
     (if url = SECTIONS_URL @ ''?term_in=202009''
      then Some \<lparr>anchors = [\<lparr>href = Some ''/x'', link_text = ''---'', in_schedules = False\<rparr>,
                             \<lparr>href = Some ''/y'', link_text = ''A-B-1-2-3'', in_schedules = False\<rparr>],
                 h2_texts = []\<rparr>
      else None)"

subsection \<open>What the pages list, in document order\<close>

text \<open>The department codes of a catalog page, the course codes of a department listing
  and the schedules of a course page: the qualifying \<^verbatim>\<open>href\<close> values in the order of
  the document, each cut as the program cuts it.\<close>

definition listed_departments :: "page \<Rightarrow> string list" where
  "listed_departments p = map (\<lambda>t. slice t 0 (- 1)) (filter begins_with_upper (targets p))"

definition listed_codes :: "page \<Rightarrow> string list" where
  "listed_codes p =
     map (\<lambda>t. slice t 0 (indexOf t (CHR ''.''))) (filter begins_with_digit07 (targets p))"

definition schedule_targets :: "page \<Rightarrow> string list" where
  "schedule_targets p =
     concat (map (\<lambda>a. case href a of None \<Rightarrow> [] | Some t \<Rightarrow> [t])
       (filter in_schedules (anchors p)))"

definition listed_schedules :: "page \<Rightarrow> string list" where
  "listed_schedules p =
     map (\<lambda>t. slice t (indexOf t (CHR ''?'')) (int (length t)))
       (filter (\<lambda>t. t \<noteq> []) (schedule_targets p))"

subsection \<open>A catalog with two departments, three courses and four records\<close>

text \<open>CSC lists the courses 225 and 370, MATH the course 100. The page of CSC 370 has two
  schedules with one section each.\<close>

definition csc_courses_page :: page where
  "csc_courses_page =
     \<lparr>anchors =
        [\<lparr>href = Some ''?C=N;O=D'', link_text = ''Name'', in_schedules = False\<rparr>,
         \<lparr>href = Some ''225.html'', link_text = ''225.html'', in_schedules = False\<rparr>,
         \<lparr>href = Some ''370.html'', link_text = ''370.html'', in_schedules = False\<rparr>],
      h2_texts = []\<rparr>"

definition fall370_schedule :: string where
  "fall370_schedule = ''?term_in=202009&subj_in=CSC&crse_in=370''"

definition winter370_schedule :: string where
  "winter370_schedule = ''?term_in=202101&subj_in=CSC&crse_in=370''"

definition csc370_page :: page where
  "csc370_page =
     \<lparr>anchors =
        [\<lparr>href = Some (SECTIONS_URL @ fall370_schedule), link_text = ''September 2020'',
           in_schedules = True\<rparr>,
         \<lparr>href = Some ''../index.html'', link_text = ''Calendar'', in_schedules = False\<rparr>,
         \<lparr>href = Some (SECTIONS_URL @ winter370_schedule), link_text = ''January 2021'',
           in_schedules = True\<rparr>],
      h2_texts = [''Database Systems'']\<rparr>"

definition db_sections_page :: page where
  "db_sections_page =
     \<lparr>anchors =
        [\<lparr>href = Some ''/c'', link_text = ''Database Systems - 20001 - CSC 370 - A01'',
           in_schedules = False\<rparr>],
      h2_texts = []\<rparr>"

definition campus_world :: world where
  "campus_world url =
     (if url = BASE_URL @ ''CSC'' then Some csc_courses_page
      else if url = BASE_URL @ ''CSC/370.html'' then Some csc370_page
      else if url = SECTIONS_URL @ fall370_schedule then Some db_sections_page
      else if url = SECTIONS_URL @ winter370_schedule then Some db_sections_page
      else repaired_world url)"

definition csc370_fall :: Course where
  "csc370_fall =
     \<lparr>code = ''370'',
      sections = [\<lparr>crn = ''20001'', sectionType = ''A'', sectionNumber = ''01''\<rparr>],
      subject = ''CSC'', title = ''Database Systems'', term_in = ''202009''\<rparr>"

definition csc370_winter :: Course where
  "csc370_winter = csc370_fall\<lparr>term_in := ''202101''\<rparr>"

definition math100_fall :: Course where
  "math100_fall =
     \<lparr>code = ''100'',
      sections = [\<lparr>crn = ''12345'', sectionType = ''A'', sectionNumber = ''01''\<rparr>,
                  \<lparr>crn = ''12346'', sectionType = ''B'', sectionNumber = ''01''\<rparr>],
      subject = ''MATH'', title = ''Calculus I'', term_in = ''202009''\<rparr>"

definition campus_crawl :: crawl where
  "campus_crawl =
     \<lparr>results = [csc225_fall, csc370_fall, csc370_winter, math100_fall], failed = []\<rparr>"




section \<open>Properties\<close>

subsection \<open>Strings\<close>

lemma slice_drop_last: "slice s 0 (- 1) = butlast s"
  by (simp add: slice_def butlast_conv_take max_def nat_diff_distrib')

lemma department_pattern_iff: "department_pattern t = begins_with_upper t"
  by (cases t) (simp_all add: department_pattern_def begins_with_upper_def)

subsection \<open>Department Extractor\<close>

lemma department_each_None: "href a = None \<Longrightarrow> department_each a acc = acc"
  by (simp add: department_each_def)

lemma department_each_Some:
  "href a = Some t \<Longrightarrow>
   department_each a acc = (if begins_with_upper t then acc @ [butlast t] else acc)"
  by (cases t) (simp_all add: department_each_def slice_drop_last department_pattern_iff
      begins_with_upper_def)

lemma fold_department_each:
  "fold department_each as acc =
     acc @ map butlast (filter begins_with_upper
       (concat (map (\<lambda>a. case href a of None \<Rightarrow> [] | Some t \<Rightarrow> [t]) as)))"
proof (induction as arbitrary: acc)
  case Nil
  show ?case by simp
next
  case (Cons a as)
  show ?case
  proof (cases "href a")
    case None
    then show ?thesis by (simp add: Cons.IH department_each_None)
  next
    case (Some t)
    then show ?thesis by (simp add: Cons.IH department_each_Some)
  qed
qed

text \<open>
  C5 (as amended). The Department Extractor emits, in document order, one code for every
  hyperlink target that begins with an upper-case letter, and the code is the target
  without its last character, whatever that character is. A page with no such target
  gives the empty sequence and no error. When every qualifying target ends with the path
  separator, the codes are the targets with the trailing separator stripped.
\<close>

theorem getDepartments_drops_last_character:
  assumes "w BASE_URL = Some p"
  shows "getDepartments w = Inr (map butlast (filter begins_with_upper (targets p)))
       \<and> (filter begins_with_upper (targets p) = [] \<longrightarrow> getDepartments w = Inr [])
       \<and> ((\<forall>t \<in> set (targets p). begins_with_upper t \<longrightarrow> last t = CHR ''/'') \<longrightarrow>
            getDepartments w = Inr (map strip_trailing_separator (filter begins_with_upper (targets p))))"
proof -
  have eq: "getDepartments w = Inr (map butlast (filter begins_with_upper (targets p)))"
    using assms by (simp add: getDepartments_def fold_department_each targets_def)
  have "map butlast (filter begins_with_upper (targets p))
      = map strip_trailing_separator (filter begins_with_upper (targets p))"
    if "\<forall>t \<in> set (targets p). begins_with_upper t \<longrightarrow> last t = CHR ''/''"
    using that by (auto simp: strip_trailing_separator_def begins_with_upper_def)
  with eq show ?thesis by simp
qed

theorem getDepartments_drops_last_character_witness:
  "demo_world BASE_URL = Some catalog_page
   \<and> filter begins_with_upper (targets catalog_page) = [''CSC/'', ''MATH/'']
   \<and> getDepartments demo_world = Inr (map strip_trailing_separator [''CSC/'', ''MATH/''])
   \<and> getDepartments demo_world = Inr [''CSC'', ''MATH'']"
proof -
  have h: "demo_world BASE_URL = Some catalog_page"
    by (simp add: demo_world_def)
  have t: "targets catalog_page = [''?C=N;O=D'', ''/calendar2020-01/'', ''CSC/'', ''MATH/'']"
    by (simp add: targets_def catalog_page_def)
  have u: "filter begins_with_upper (targets catalog_page) = [''CSC/'', ''MATH/'']"
    by (simp add: t begins_with_upper_def is_upper_def)
  have a: "\<forall>t \<in> set (targets catalog_page). begins_with_upper t \<longrightarrow> last t = CHR ''/''"
    by (simp add: t begins_with_upper_def is_upper_def)
  note k = getDepartments_drops_last_character [of demo_world catalog_page, OF h]
  from k [THEN conjunct1]
  have 1: "getDepartments demo_world = Inr (map butlast [''CSC/'', ''MATH/''])"
    by (simp only: u)
  from k [THEN conjunct2, THEN conjunct2, THEN mp, OF a]
  have 2: "getDepartments demo_world = Inr (map strip_trailing_separator [''CSC/'', ''MATH/''])"
    by (simp only: u)
  from 1 have "getDepartments demo_world = Inr [''CSC'', ''MATH'']"
    by simp
  with 2 h u show ?thesis by (simp only:)
qed

text \<open>A qualifying target that does not end with a separator loses its last letter.\<close>

theorem getDepartments_strip_counterexample:
  "getDepartments readme_world = Inr [''READM'']
   \<and> map strip_trailing_separator (filter begins_with_upper [''README'']) = [''README'']"
  by (simp add: getDepartments_def readme_world_def department_each_def department_pattern_def
      slice_def strip_trailing_separator_def begins_with_upper_def is_upper_def)

subsection \<open>Course-Code Extractor\<close>

lemma indexOf_eq:
  "indexOf s c = (if c \<in> set s then int (length (takeWhile (\<lambda>x. x \<noteq> c) s)) else - 1)"
  by (induction s) (auto simp: Let_def)

lemma slice_from_start: "0 \<le> k \<Longrightarrow> slice s 0 k = take (nat k) s"
  by (auto simp: slice_def min_def Let_def)

lemma slice_to_end: "0 \<le> k \<Longrightarrow> slice s k (int (length s)) = drop (nat k) s"
  by (auto simp: slice_def min_def Let_def)

lemma slice_indexOf:
  "slice t 0 (indexOf t c) =
     (if c \<in> set t then takeWhile (\<lambda>x. x \<noteq> c) t else butlast t)"
  by (simp add: indexOf_eq slice_from_start slice_drop_last takeWhile_eq_take [symmetric])

lemma course_pattern_iff: "course_pattern t = begins_with_digit07 t"
  by (cases t) (simp_all add: course_pattern_def begins_with_digit07_def)

lemma course_each_None: "href a = None \<Longrightarrow> course_each a acc = acc"
  by (simp add: course_each_def)

lemma course_each_Some:
  "href a = Some t \<Longrightarrow>
   course_each a acc =
     (if begins_with_digit07 t
      then acc @ [if CHR ''.'' \<in> set t then before_first_dot t else butlast t]
      else acc)"
proof -
  assume h: "href a = Some t"
  have "begins_with_digit07 t \<Longrightarrow> t \<noteq> []"
    by (auto simp: begins_with_digit07_def)
  then show ?thesis
    using h
    by (auto simp: course_each_def slice_indexOf course_pattern_iff before_first_dot_def)
qed

lemma fold_course_each:
  "fold course_each as acc =
     acc @ map (\<lambda>t. if CHR ''.'' \<in> set t then before_first_dot t else butlast t)
       (filter begins_with_digit07
         (concat (map (\<lambda>a. case href a of None \<Rightarrow> [] | Some t \<Rightarrow> [t]) as)))"
proof (induction as arbitrary: acc)
  case Nil
  show ?case by simp
next
  case (Cons a as)
  show ?case
  proof (cases "href a")
    case None
    then show ?thesis by (simp add: Cons.IH course_each_None)
  next
    case (Some t)
    then show ?thesis by (simp add: Cons.IH course_each_Some)
  qed
qed

lemma getCourseCodes_page:
  assumes "w (BASE_URL @ department) = Some p"
  shows "getCourseCodes w department =
           Inr (map (\<lambda>t. slice t 0 (indexOf t (CHR ''.'')))
                  (filter begins_with_digit07 (targets p)))"
  using assms
  by (simp add: getCourseCodes_def fold_course_each targets_def slice_indexOf
      before_first_dot_def)

text \<open>On a listing all of whose qualifying targets contain a dot, the extractor gives
  the substrings before the first dots.\<close>

lemma getCourseCodes_dotted:
  assumes "w (BASE_URL @ department) = Some p"
    and "\<forall>t \<in> set (targets p). begins_with_digit07 t \<longrightarrow> CHR ''.'' \<in> set t"
  shows "getCourseCodes w department =
           Inr (map before_first_dot (filter begins_with_digit07 (targets p)))"
proof -
  have "map (\<lambda>t. if CHR ''.'' \<in> set t then before_first_dot t else butlast t)
          (filter begins_with_digit07 (targets p))
      = map before_first_dot (filter begins_with_digit07 (targets p))"
    by (rule map_cong) (use assms(2) in auto)
  moreover have "getCourseCodes w department =
      Inr (map (\<lambda>t. if CHR ''.'' \<in> set t then before_first_dot t else butlast t)
             (filter begins_with_digit07 (targets p)))"
    using assms(1) by (simp add: getCourseCodes_def fold_course_each targets_def)
  ultimately show ?thesis by (simp only:)
qed

text \<open>
  C4. The Course-Code Extractor is to retain, in document order, the targets that begin
  with a digit from 0 to 7, each as the substring before its first dot. The code cuts
  the target at \<^verbatim>\<open>indexOf('.')\<close> and does not look at the result \<open>-1\<close> of a target
  without a dot: \<^verbatim>\<open>slice(0, -1)\<close> then drops the last character. On the listing whose
  only link is \<^verbatim>\<open>225\<close> the extractor gives \<^verbatim>\<open>22\<close>, where the substring before the
  first dot is \<^verbatim>\<open>225\<close>.
\<close>

theorem getCourseCodes_no_dot:
  "getCourseCodes bare_listing_world ''CSC'' = Inr [''22'']
   \<and> map before_first_dot (filter begins_with_digit07 [''225'']) = [''225'']"
  by (simp add: getCourseCodes_def bare_listing_world_def course_each_def course_pattern_def
      slice_def before_first_dot_def begins_with_digit07_def is_digit07_def)

subsection \<open>Promise.all does not depend on the completion times\<close>

lemma fold_settle_Rejected: "fold (settle ps) js (Rejected e) = Rejected e"
  by (induction js) simp_all

lemma fold_settle_rejects:
  "\<exists>i \<in> set js. \<exists>e. ps ! i = Inl e \<Longrightarrow>
   \<exists>e. fold (settle ps) js (Pending slots) = Rejected e"
proof (induction js arbitrary: slots)
  case Nil
  then show ?case by simp
next
  case (Cons j js)
  show ?case
  proof (cases "ps ! j")
    case (Inl e)
    then show ?thesis by (simp add: fold_settle_Rejected)
  next
    case (Inr v)
    with Cons.prems have "\<exists>i \<in> set js. \<exists>e. ps ! i = Inl e" by auto
    from Cons.IH [OF this] show ?thesis using Inr by simp
  qed
qed

lemma fold_settle_fulfils:
  "\<forall>i \<in> set js. i < length vs \<Longrightarrow>
   fold (settle (map Inr vs)) js (Pending slots) =
     Pending (fold (\<lambda>i sl. sl[i := Some (vs ! i)]) js slots)"
  by (induction js arbitrary: slots) simp_all

lemma length_fold_update: "length (fold (\<lambda>i sl. sl[i := f i]) js slots) = length slots"
  by (induction js arbitrary: slots) simp_all

lemma fold_update_other:
  "j \<notin> set js \<Longrightarrow> fold (\<lambda>i sl. sl[i := f i]) js slots ! j = slots ! j"
  by (induction js arbitrary: slots) auto

lemma fold_update_written:
  "j \<in> set js \<Longrightarrow> j < length slots \<Longrightarrow> fold (\<lambda>i sl. sl[i := f i]) js slots ! j = f j"
proof (induction js arbitrary: slots)
  case Nil
  then show ?case by simp
next
  case (Cons i js)
  show ?case
  proof (cases "j \<in> set js")
    case True
    with Cons show ?thesis by simp
  next
    case False
    with Cons.prems have "j = i" by simp
    with False Cons.prems show ?thesis by (simp add: fold_update_other)
  qed
qed

lemma fold_update_all:
  assumes "set js = {0..<length vs}" and "length slots = length vs"
  shows "fold (\<lambda>i sl. sl[i := Some (vs ! i)]) js slots = map Some vs"
proof (rule nth_equalityI)
  show "length (fold (\<lambda>i sl. sl[i := Some (vs ! i)]) js slots) = length (map Some vs)"
    using assms by (simp add: length_fold_update)
next
  fix j assume "j < length (fold (\<lambda>i sl. sl[i := Some (vs ! i)]) js slots)"
  then have j: "j < length vs" using assms by (simp add: length_fold_update)
  then have "j \<in> set js" using assms by simp
  then show "fold (\<lambda>i sl. sl[i := Some (vs ! i)]) js slots ! j = map Some vs ! j"
    using j assms by (simp add: fold_update_written)
qed

lemma those_map_Some: "those (map Some vs) = Some vs"
  by (induction vs) simp_all

lemma Promise_all_fulfils: "Promise_all time (map Inr vs) = Some (Inr vs)"
proof -
  have "fold (settle (map Inr vs)) (sort_key time [0..<length vs])
          (Pending (replicate (length vs) None)) = Pending (map Some vs)"
    by (simp add: fold_settle_fulfils fold_update_all)
  then show ?thesis by (simp add: Promise_all_def those_map_Some)
qed

lemma Promise_all_rejects:
  assumes "Inl e \<in> set ps"
  shows "\<exists>e'. Promise_all time ps = Some (Inl e')"
proof -
  from assms obtain i where "i < length ps" "ps ! i = Inl e"
    by (auto simp: in_set_conv_nth)
  then have "\<exists>i \<in> set (sort_key time [0..<length ps]). \<exists>e. ps ! i = Inl e"
    by auto
  from fold_settle_rejects [OF this]
  obtain e' where "fold (settle ps) (sort_key time [0..<length ps])
      (Pending (replicate (length ps) None)) = Rejected e'"
    by blast
  then show ?thesis by (simp add: Promise_all_def)
qed


subsection \<open>The loop of getOffered\<close>

lemma offered_loop_requests:
  "fst (offered_loop w subject' code' title' ss cs req) =
     req @ map (\<lambda>s. SECTIONS_URL @ s) (take (Suc (length (takeWhile (lookup_ok w) ss))) ss)"
  by (induction ss arbitrary: cs req) (auto simp: lookup_ok_def split: sum.splits)

lemma offered_loop_succeeds:
  "list_all (lookup_ok w) ss \<Longrightarrow>
   snd (offered_loop w subject' code' title' ss cs req) =
     Inr (cs @ map (course_of w subject' code' title')
                 (filter (\<lambda>s. sections_at w s \<noteq> []) ss))"
  by (induction ss arbitrary: cs req)
     (auto simp: lookup_ok_def sections_at_def course_of_def split: sum.splits)

lemma offered_loop_fails:
  "\<not> list_all (lookup_ok w) ss \<Longrightarrow>
   snd (offered_loop w subject' code' title' ss cs req) = Inl FailedAvailableSections"
  by (induction ss arbitrary: cs req) (auto simp: lookup_ok_def split: sum.splits)

lemma getOffered_no_page:
  "w (course_url subject' code') = None \<Longrightarrow>
   getOffered w subject' code' = Inl FailedAvailableSections"
  by (simp add: getOffered_def getOffered_run_def)

lemma getOffered_page:
  "w (course_url subject' code') = Some p \<Longrightarrow>
   getOffered w subject' code' =
     (if list_all (lookup_ok w) (page_schedules p)
      then Inr (offered_courses w subject' code' p)
      else Inl FailedAvailableSections)"
  by (simp add: getOffered_def getOffered_run_def offered_loop_succeeds offered_loop_fails
      offered_courses_def)

lemma getOffered_Inr:
  assumes "getOffered w subject' code' = Inr cs"
  shows "\<exists>p. w (course_url subject' code') = Some p
           \<and> list_all (lookup_ok w) (page_schedules p)
           \<and> cs = offered_courses w subject' code' p"
proof (cases "w (course_url subject' code')")
  case None
  with assms show ?thesis by (simp add: getOffered_no_page)
next
  case (Some p)
  with assms show ?thesis by (auto simp: getOffered_page split: if_splits)
qed

lemma getOffered_Inl: "getOffered w subject' code' = Inl e \<Longrightarrow> e = FailedAvailableSections"
  by (cases "w (course_url subject' code')")
     (auto simp: getOffered_no_page getOffered_page split: if_splits)

lemma offered_courses_fields:
  "c \<in> set (offered_courses w subject' code' p) \<Longrightarrow>
   subject c = subject' \<and> code c = code' \<and> title c = page_title p \<and> sections c \<noteq> []"
  by (auto simp: offered_courses_def course_of_def)

lemma courses_at_fields:
  assumes "c \<in> set (courses_at w department code')"
  shows "subject c = department \<and> code c = code' \<and> sections c \<noteq> []"
proof (cases "getOffered w department code'")
  case (Inl e)
  with assms show ?thesis by (simp add: courses_at_def)
next
  case (Inr cs)
  from getOffered_Inr [OF Inr] obtain p where "cs = offered_courses w department code' p"
    by blast
  with assms Inr show ?thesis
    using offered_courses_fields [of c w department code' p] by (simp add: courses_at_def)
qed

lemma department_courses_fields:
  "c \<in> set (department_courses w department) \<Longrightarrow>
   subject c = department \<and> sections c \<noteq> []"
  by (auto simp: department_courses_def split: sum.splits dest: courses_at_fields)

subsection \<open>The loop of main\<close>

lemma main_loop_step:
  "main_loop t w (d # rest) st =
     main_loop t w rest
       (if department_fails w d then st\<lparr>failed := failed st @ [d]\<rparr>
        else st\<lparr>results := results st @ department_courses w d\<rparr>)"
proof (cases "getCourseCodes w d")
  case (Inl e)
  then show ?thesis by (simp add: department_fails_def)
next
  case (Inr codes)
  show ?thesis
  proof (cases "list_ex (\<lambda>c. case getOffered w d c of Inl _ \<Rightarrow> True | Inr _ \<Rightarrow> False) codes")
    case True
    then obtain c where c: "c \<in> set codes"
        "case getOffered w d c of Inl _ \<Rightarrow> True | Inr _ \<Rightarrow> False"
      by (auto simp: list_ex_iff)
    then obtain e where "getOffered w d c = Inl e"
      by (cases "getOffered w d c") simp_all
    with c have "c \<in> set codes" "getOffered w d c = Inl e"
      by simp_all
    then have "Inl e \<in> set (map (getOffered w d) codes)"
      by force
    from Promise_all_rejects [OF this, of "t d"] obtain e' where
      "Promise_all (t d) (map (getOffered w d) codes) = Some (Inl e')" by blast
    with Inr True show ?thesis by (simp add: department_fails_def)
  next
    case False
    then have "map (getOffered w d) codes = map Inr (map (courses_at w d) codes)"
      by (auto simp: list_ex_iff courses_at_def split: sum.splits)
    then have "Promise_all (t d) (map (getOffered w d) codes) = Some (Inr (map (courses_at w d) codes))"
      by (simp only: Promise_all_fulfils)
    with Inr False show ?thesis by (simp add: department_fails_def department_courses_def)
  qed
qed

lemma main_loop_eq:
  "main_loop t w ds st =
     Some \<lparr>results = results st @ concat (map (department_courses w)
                                       (filter (\<lambda>d. \<not> department_fails w d) ds)),
           failed = failed st @ filter (department_fails w) ds\<rparr>"
proof (induction ds arbitrary: st)
  case Nil
  show ?case by simp
next
  case (Cons d ds)
  show ?case
    by (simp only: main_loop_step Cons.IH) simp
qed

lemma main_eq:
  "main t w =
     (case getDepartments w of
        Inl e \<Rightarrow> Some (Inl e)
      | Inr ds \<Rightarrow>
          Some (Inr \<lparr>results = concat (map (department_courses w)
                                  (filter (\<lambda>d. \<not> department_fails w d) ds)),
                     failed = filter (department_fails w) ds\<rparr>))"
  by (simp add: main_def main_loop_eq split: sum.splits)

text \<open>Every run of \<open>main\<close> returns.\<close>

lemma main_returns: "\<exists>r. main t w = Some r"
  by (simp add: main_eq split: sum.splits)

subsection \<open>The example catalog, evaluated\<close>

lemmas char_defs = is_upper_def is_lower_def is_digit_def is_digit07_def is_word_def
  is_space_def is_line_terminator_def

lemmas demo_defs = demo_world_def BASE_URL_def SECTIONS_URL_def fall_schedule_def
  spring_schedule_def

lemma demo_departments: "getDepartments demo_world = Inr [''CSC'', ''MATH'']"
  by (simp add: getDepartments_def demo_defs catalog_page_def department_each_def
      department_pattern_def slice_def char_defs)

lemma demo_codes_CSC: "getCourseCodes demo_world ''CSC'' = Inr [''225'']"
  by (simp add: getCourseCodes_def demo_defs csc_page_def course_each_def course_pattern_def
      slice_def char_defs)

lemma demo_codes_MATH: "getCourseCodes demo_world ''MATH'' = Inl FailedCourseData"
  by (simp add: getCourseCodes_def demo_defs)

lemma demo_sections_fall:
  "getSections demo_world fall_schedule =
     Inr [\<lparr>crn = ''12345'', sectionType = ''A'', sectionNumber = ''01''\<rparr>,
          \<lparr>crn = ''12346'', sectionType = ''B'', sectionNumber = ''01''\<rparr>]"
  by (simp add: getSections_def demo_defs fall_sections_page_def section_each_def
      section_of_def after_first_dash_def dot_star_dash_def trim_def charAt_def slice_def
      char_defs)

lemma demo_sections_spring: "getSections demo_world spring_schedule = Inr []"
  by (simp add: getSections_def demo_defs empty_page_def)

lemma demo_page: "demo_world (course_url ''CSC'' ''225'') = Some csc225_page"
  by (simp add: course_url_def demo_defs)

lemma demo_schedules: "page_schedules csc225_page = [fall_schedule, spring_schedule]"
  by (simp add: page_schedules_def csc225_page_def schedule_each_def slice_def
      SECTIONS_URL_def fall_schedule_def spring_schedule_def)

lemma demo_term: "course_term fall_schedule = ''202009''"
  by (simp add: course_term_def fall_schedule_def char_defs)

lemma demo_title: "page_title csc225_page = '' Algorithms and Data Structures I ''"
  by (simp add: page_title_def csc225_page_def)

lemma demo_offered: "getOffered demo_world ''CSC'' ''225'' = Inr [csc225_fall]"
  by (simp add: getOffered_page [of demo_world "''CSC''" "''225''" csc225_page, OF demo_page]
      demo_schedules lookup_ok_def demo_sections_fall demo_sections_spring
      offered_courses_def sections_at_def course_of_def demo_term demo_title
      csc225_fall_def)

lemma demo_fails_MATH: "department_fails demo_world ''MATH''"
  by (simp add: department_fails_def demo_codes_MATH)

lemma demo_fails_CSC: "\<not> department_fails demo_world ''CSC''"
  by (simp add: department_fails_def demo_codes_CSC demo_offered)

lemma demo_courses_CSC: "department_courses demo_world ''CSC'' = [csc225_fall]"
  by (simp add: department_courses_def demo_codes_CSC courses_at_def demo_offered)

lemma demo_main: "main t demo_world = Some (Inr demo_crawl)"
  by (simp add: main_eq demo_departments demo_fails_MATH demo_fails_CSC demo_courses_CSC
      demo_crawl_def)

subsection \<open>Failure of the department discovery\<close>

text \<open>
  C10. When \<open>getDepartments\<close> fails, \<open>main\<close> fails with the same error: the run returns
  no crawl, so that no Course record and no entry of the Failure Set reaches the caller,
  whatever the completion times.
\<close>

theorem main_fails_with_getDepartments:
  assumes "getDepartments w = Inl e"
  shows "main t w = Some (Inl e) \<and> (\<forall>out. main t w \<noteq> Some (Inr out))"
  using assms by (simp add: main_def)

theorem main_fails_with_getDepartments_witness:
  "getDepartments bare_listing_world = Inl FailedDepartmentData
   \<and> main by_index bare_listing_world = Some (Inl FailedDepartmentData)"
proof -
  have h: "getDepartments bare_listing_world = Inl FailedDepartmentData"
    by (simp add: getDepartments_def bare_listing_world_def BASE_URL_def)
  from main_fails_with_getDepartments [OF h, of by_index] h show ?thesis
    by simp
qed

subsection \<open>Courses without sections\<close>

text \<open>
  C6. Every Course record of the Crawl Result has at least one section. A course page
  all of whose section lookups succeed is aggregated without error into one record for
  each schedule that has a section, in the order of the schedules: a schedule with no
  section gives no record and no failure.
\<close>

theorem emitted_courses_have_sections:
  "(main t w = Some (Inr out) \<longrightarrow> (\<forall>c \<in> set (results out). sections c \<noteq> []))
   \<and> (w (course_url subject' code') = Some p \<longrightarrow> list_all (lookup_ok w) (page_schedules p) \<longrightarrow>
        getOffered w subject' code' =
          Inr (map (course_of w subject' code' (page_title p))
                 (filter (\<lambda>schedule. sections_at w schedule \<noteq> []) (page_schedules p))))"
proof -
  have "sections c \<noteq> []" if "main t w = Some (Inr out)" "c \<in> set (results out)" for c
  proof -
    from that obtain ds where "getDepartments w = Inr ds"
      and "results out = concat (map (department_courses w)
             (filter (\<lambda>d. \<not> department_fails w d) ds))"
      by (auto simp: main_eq split: sum.splits)
    with that obtain d where "c \<in> set (department_courses w d)"
      by auto
    then show ?thesis by (simp add: department_courses_fields)
  qed
  then show ?thesis
    by (auto simp: getOffered_page offered_courses_def)
qed

theorem emitted_courses_have_sections_witness:
  "main by_index demo_world = Some (Inr demo_crawl)
   \<and> results demo_crawl = [csc225_fall]
   \<and> sections csc225_fall \<noteq> []
   \<and> page_schedules csc225_page = [fall_schedule, spring_schedule]
   \<and> sections_at demo_world spring_schedule = []
   \<and> getOffered demo_world ''CSC'' ''225'' =
       Inr [course_of demo_world ''CSC'' ''225'' (page_title csc225_page) fall_schedule]"
proof -
  have ok: "list_all (lookup_ok demo_world) (page_schedules csc225_page)"
    by (simp add: demo_schedules lookup_ok_def demo_sections_fall demo_sections_spring)
  have r: "results demo_crawl = [csc225_fall]"
    by (simp add: demo_crawl_def)
  have s: "sections_at demo_world spring_schedule = []"
       "sections_at demo_world fall_schedule \<noteq> []"
    by (simp_all add: sections_at_def demo_sections_fall demo_sections_spring)
  from emitted_courses_have_sections
    [of by_index demo_world demo_crawl "''CSC''" "''225''" csc225_page]
  have "sections csc225_fall \<noteq> []"
    and "getOffered demo_world ''CSC'' ''225'' =
       Inr [course_of demo_world ''CSC'' ''225'' (page_title csc225_page) fall_schedule]"
    using demo_main [of by_index] demo_page ok r s by (simp_all add: demo_schedules)
  then show ?thesis
    using demo_main [of by_index] r s by (simp add: demo_schedules)
qed

subsection \<open>Order of the Crawl Result\<close>

lemma surviving_department:
  assumes "\<not> department_fails w d"
  shows "\<exists>cs. getCourseCodes w d = Inr cs
           \<and> (\<forall>c \<in> set cs. \<exists>p. w (course_url d c) = Some p
                  \<and> list_all (lookup_ok w) (page_schedules p)
                  \<and> courses_at w d c = offered_courses w d c p)"
proof (cases "getCourseCodes w d")
  case (Inl e)
  with assms show ?thesis by (simp add: department_fails_def)
next
  case (Inr cs)
  have "\<exists>p. w (course_url d c) = Some p \<and> list_all (lookup_ok w) (page_schedules p)
           \<and> courses_at w d c = offered_courses w d c p" if "c \<in> set cs" for c
  proof (cases "getOffered w d c")
    case (Inl e)
    with assms Inr that show ?thesis
      by (auto simp: department_fails_def list_ex_iff)
  next
    case r: (Inr xs)
    from getOffered_Inr [OF r] show ?thesis
      using r by (auto simp: courses_at_def)
  qed
  with Inr show ?thesis by blast
qed

text \<open>The extractors read the pages in document order.\<close>

lemma getDepartments_Inr:
  assumes "getDepartments w = Inr ds"
  shows "\<exists>p. w BASE_URL = Some p \<and> ds = listed_departments p"
proof (cases "w BASE_URL")
  case None
  with assms show ?thesis by (simp add: getDepartments_def)
next
  case (Some p)
  with assms have "ds = listed_departments p"
    by (simp add: getDepartments_def fold_department_each targets_def listed_departments_def
        slice_drop_last)
  with Some show ?thesis by simp
qed

lemma getCourseCodes_Inr:
  assumes "getCourseCodes w d = Inr cs"
  shows "\<exists>p. w (BASE_URL @ d) = Some p \<and> cs = listed_codes p"
proof (cases "w (BASE_URL @ d)")
  case None
  with assms show ?thesis by (simp add: getCourseCodes_def)
next
  case (Some p)
  from getCourseCodes_page [of w d p, OF Some] assms have "cs = listed_codes p"
    by (simp add: listed_codes_def)
  with Some show ?thesis by simp
qed

lemma schedule_each_None: "href a = None \<Longrightarrow> schedule_each a acc = acc"
  by (simp add: schedule_each_def)

lemma schedule_each_Some:
  "href a = Some t \<Longrightarrow>
   schedule_each a acc =
     (if t \<noteq> [] then acc @ [slice t (indexOf t (CHR ''?'')) (int (length t))] else acc)"
  by (simp add: schedule_each_def)

lemma fold_schedule_each:
  "fold schedule_each as acc =
     acc @ map (\<lambda>t. slice t (indexOf t (CHR ''?'')) (int (length t)))
       (filter (\<lambda>t. t \<noteq> [])
         (concat (map (\<lambda>a. case href a of None \<Rightarrow> [] | Some t \<Rightarrow> [t]) as)))"
proof (induction as arbitrary: acc)
  case Nil
  show ?case by simp
next
  case (Cons a as)
  show ?case
  proof (cases "href a")
    case None
    then show ?thesis by (simp add: Cons.IH schedule_each_None)
  next
    case (Some t)
    then show ?thesis by (simp add: Cons.IH schedule_each_Some)
  qed
qed

lemma page_schedules_listed: "page_schedules p = listed_schedules p"
  by (simp add: page_schedules_def listed_schedules_def schedule_targets_def
      fold_schedule_each)

text \<open>
  C3. When the crawl returns, its result lists the records of the departments that did
  not fail in the order of the hyperlinks of the catalog page, within a department those
  of its course codes in the order of the hyperlinks of the department listing, and
  within a course one record for each schedule with a section, in the order of the
  hyperlinks of the schedules region of the course page. The completion times of the
  concurrent calls of \<open>getOffered\<close> do not appear in it: every other timing gives the
  same crawl.
\<close>

theorem crawl_result_in_discovery_order:
  assumes "main t w = Some (Inr out)"
  shows "\<exists>catalog listings pages.
           w BASE_URL = Some catalog
         \<and> getDepartments w = Inr (listed_departments catalog)
         \<and> (\<forall>d \<in> set (listed_departments catalog). \<not> department_fails w d \<longrightarrow>
              w (BASE_URL @ d) = Some (listings d)
              \<and> getCourseCodes w d = Inr (listed_codes (listings d))
              \<and> (\<forall>c \<in> set (listed_codes (listings d)).
                    w (course_url d c) = Some (pages d c)
                    \<and> page_schedules (pages d c) = listed_schedules (pages d c)
                    \<and> list_all (lookup_ok w) (listed_schedules (pages d c))))
         \<and> results out =
             concat (map (\<lambda>d. concat (map (\<lambda>c.
                 map (course_of w d c (page_title (pages d c)))
                   (filter (\<lambda>schedule. sections_at w schedule \<noteq> [])
                      (listed_schedules (pages d c))))
               (listed_codes (listings d))))
             (filter (\<lambda>d. \<not> department_fails w d) (listed_departments catalog)))
         \<and> (\<forall>t'. main t' w = Some (Inr out))"
proof -
  define listings where "listings d = the (w (BASE_URL @ d))" for d
  define codes where "codes d = listed_codes (listings d)" for d
  define pages where "pages d c = the (w (course_url d c))" for d c
  from assms obtain ds where ds: "getDepartments w = Inr ds"
    and out: "out = \<lparr>results = concat (map (department_courses w)
                                  (filter (\<lambda>d. \<not> department_fails w d) ds)),
                     failed = filter (department_fails w) ds\<rparr>"
    by (auto simp: main_eq split: sum.splits)
  from getDepartments_Inr [OF ds] obtain catalog where cat: "w BASE_URL = Some catalog"
    and dsl: "ds = listed_departments catalog"
    by blast
  have surv: "w (BASE_URL @ d) = Some (listings d)
      \<and> getCourseCodes w d = Inr (codes d)
      \<and> (\<forall>c \<in> set (codes d). w (course_url d c) = Some (pages d c)
            \<and> list_all (lookup_ok w) (page_schedules (pages d c))
            \<and> courses_at w d c = offered_courses w d c (pages d c))"
    if "\<not> department_fails w d" for d
  proof -
    from surviving_department [OF that] obtain cs where cs: "getCourseCodes w d = Inr cs"
      and each: "\<forall>c \<in> set cs. \<exists>p. w (course_url d c) = Some p
                  \<and> list_all (lookup_ok w) (page_schedules p)
                  \<and> courses_at w d c = offered_courses w d c p"
      by blast
    from getCourseCodes_Inr [OF cs] obtain lp where lp: "w (BASE_URL @ d) = Some lp"
      and csl: "cs = listed_codes lp"
      by blast
    from lp have l: "listings d = lp"
      by (simp add: listings_def)
    with csl have c: "codes d = cs"
      by (simp add: codes_def)
    have "w (course_url d c) = Some (pages d c)
            \<and> list_all (lookup_ok w) (page_schedules (pages d c))
            \<and> courses_at w d c = offered_courses w d c (pages d c)" if "c \<in> set cs" for c
    proof -
      from each that obtain p where "w (course_url d c) = Some p"
          "list_all (lookup_ok w) (page_schedules p)"
          "courses_at w d c = offered_courses w d c p"
        by blast
      then show ?thesis by (simp add: pages_def)
    qed
    with cs lp l c show ?thesis by simp
  qed
  have dc: "department_courses w d =
      concat (map (\<lambda>c. map (course_of w d c (page_title (pages d c)))
                   (filter (\<lambda>schedule. sections_at w schedule \<noteq> [])
                      (page_schedules (pages d c)))) (codes d))"
    if "\<not> department_fails w d" for d
  proof -
    have m: "map (courses_at w d) (codes d) =
        map (\<lambda>c. offered_courses w d c (pages d c)) (codes d)"
      by (rule map_cong) (use surv [OF that] in simp_all)
    from surv [OF that] have "department_courses w d =
        concat (map (courses_at w d) (codes d))"
      by (simp add: department_courses_def)
    then have "department_courses w d =
        concat (map (\<lambda>c. offered_courses w d c (pages d c)) (codes d))"
      by (simp only: m)
    then show ?thesis
      unfolding offered_courses_def .
  qed
  have mm: "map (department_courses w) (filter (\<lambda>d. \<not> department_fails w d) ds) =
      map (\<lambda>d. concat (map (\<lambda>c. map (course_of w d c (page_title (pages d c)))
                   (filter (\<lambda>schedule. sections_at w schedule \<noteq> [])
                      (page_schedules (pages d c)))) (codes d)))
        (filter (\<lambda>d. \<not> department_fails w d) ds)"
    by (rule map_cong) (simp_all add: dc)
  have "results out = concat (map (department_courses w)
      (filter (\<lambda>d. \<not> department_fails w d) ds))"
    by (simp add: out)
  then have res: "results out =
      concat (map (\<lambda>d. concat (map (\<lambda>c. map (course_of w d c (page_title (pages d c)))
                   (filter (\<lambda>schedule. sections_at w schedule \<noteq> [])
                      (page_schedules (pages d c)))) (codes d)))
        (filter (\<lambda>d. \<not> department_fails w d) ds))"
    by (simp only: mm)
  have all: "\<forall>t'. main t' w = Some (Inr out)"
    using ds out by (simp add: main_eq)
  note res' = res [unfolded codes_def page_schedules_listed dsl]
  have surv': "w (BASE_URL @ d) = Some (listings d)
      \<and> getCourseCodes w d = Inr (listed_codes (listings d))
      \<and> (\<forall>c \<in> set (listed_codes (listings d)).
            w (course_url d c) = Some (pages d c)
            \<and> page_schedules (pages d c) = listed_schedules (pages d c)
            \<and> list_all (lookup_ok w) (listed_schedules (pages d c)))"
    if "\<not> department_fails w d" for d
    using surv [OF that] by (simp add: codes_def page_schedules_listed)
  from cat ds dsl have "w BASE_URL = Some catalog
      \<and> getDepartments w = Inr (listed_departments catalog)"
    by simp
  with surv' res' all show ?thesis
    by (intro exI [of _ catalog] exI [of _ listings] exI [of _ pages]) simp
qed

subsection \<open>Isolation of a failing department\<close>











subsection \<open>Title of a course\<close>

text \<open>
  C8 (as amended). Every Course record aggregated from a course detail page has as its
  title the combined text of all the \<^verbatim>\<open>h2\<close> headings of the page, in document order and
  verbatim, surrounding whitespace included; when the page has exactly one such heading,
  this is the text of that heading.
\<close>

theorem course_title_is_combined_heading_text:
  assumes "getOffered w subject' code' = Inr cs" and "x \<in> set cs"
  shows "\<exists>p. w (course_url subject' code') = Some p
           \<and> title x = concat (h2_texts p)
           \<and> (\<forall>h. h2_texts p = [h] \<longrightarrow> title x = h)"
proof -
  from getOffered_Inr [OF assms(1)] obtain p where p: "w (course_url subject' code') = Some p"
    and cs: "cs = offered_courses w subject' code' p"
    by blast
  from assms(2) cs have "title x = page_title p"
    by (simp add: offered_courses_fields)
  with p show ?thesis by (auto simp: page_title_def)
qed

theorem course_title_is_combined_heading_text_witness:
  "getOffered demo_world ''CSC'' ''225'' = Inr [csc225_fall]
   \<and> h2_texts csc225_page = ['' Algorithms and Data Structures I '']
   \<and> title csc225_fall = '' Algorithms and Data Structures I ''"
proof -
  have x: "csc225_fall \<in> set [csc225_fall]"
    by simp
  have h: "h2_texts csc225_page = ['' Algorithms and Data Structures I '']"
    by (simp add: csc225_page_def)
  from course_title_is_combined_heading_text [OF demo_offered x]
  have "title csc225_fall = '' Algorithms and Data Structures I ''"
    using demo_page h by auto
  with demo_offered h show ?thesis by simp
qed

text \<open>With two headings the title is the text of both, not of the first.\<close>

lemma two_headings_offered:
  "getOffered two_headings_world ''CSC'' ''225'' =
     Inr [csc225_fall\<lparr>title := ''CSC 225Prerequisites''\<rparr>]"
proof -
  have p: "two_headings_world (course_url ''CSC'' ''225'') = Some two_headings_page"
    by (simp add: two_headings_world_def course_url_def BASE_URL_def)
  have s: "getSections two_headings_world schedule = getSections demo_world schedule"
    for schedule
    by (simp add: getSections_def two_headings_world_def BASE_URL_def SECTIONS_URL_def)
  have sch: "page_schedules two_headings_page = [fall_schedule]"
    by (simp add: page_schedules_def two_headings_page_def schedule_each_def slice_def
        SECTIONS_URL_def fall_schedule_def)
  have t: "page_title two_headings_page = ''CSC 225Prerequisites''"
    by (simp add: page_title_def two_headings_page_def)
  from getOffered_page [of two_headings_world "''CSC''" "''225''" two_headings_page, OF p]
  show ?thesis
    by (simp add: sch lookup_ok_def s demo_sections_fall offered_courses_def sections_at_def
        course_of_def demo_term t csc225_fall_def)
qed

theorem course_title_first_heading_counterexample:
  "getOffered two_headings_world ''CSC'' ''225'' =
     Inr [csc225_fall\<lparr>title := ''CSC 225Prerequisites''\<rparr>]
   \<and> two_headings_world (course_url ''CSC'' ''225'') = Some two_headings_page
   \<and> first_heading two_headings_page = ''CSC 225''"
  using two_headings_offered
  by (simp add: two_headings_world_def course_url_def BASE_URL_def first_heading_def
      two_headings_page_def)

subsection \<open>Order of the section lookups of a course\<close>

text \<open>
  C2 (as amended). The section lookups of one course are issued one after the other, in
  the order of the schedules of the page, each after the one before it has succeeded:
  the requests of an aggregation are the course page, then the lookups of the schedules
  up to and including the first one that fails, and no lookup after it. When every lookup
  succeeds, all of them are issued in that order and their results are put together in
  the order of the schedules. When a lookup fails, the aggregation fails.
\<close>

theorem section_lookups_are_sequential:
  assumes "w (course_url subject' code') = Some p"
  shows "fst (getOffered_run w subject' code') =
           course_url subject' code' #
             map (\<lambda>schedule. SECTIONS_URL @ schedule)
               (take (Suc (length (takeWhile (lookup_ok w) (page_schedules p))))
                  (page_schedules p))
       \<and> (list_all (lookup_ok w) (page_schedules p) \<longrightarrow>
            fst (getOffered_run w subject' code') =
              course_url subject' code' #
                map (\<lambda>schedule. SECTIONS_URL @ schedule) (page_schedules p)
            \<and> getOffered w subject' code' =
                Inr (map (course_of w subject' code' (page_title p))
                       (filter (\<lambda>schedule. sections_at w schedule \<noteq> []) (page_schedules p))))
       \<and> (\<not> list_all (lookup_ok w) (page_schedules p) \<longrightarrow>
            getOffered w subject' code' = Inl FailedAvailableSections)"
proof -
  have 1: "fst (getOffered_run w subject' code') =
           course_url subject' code' #
             map (\<lambda>schedule. SECTIONS_URL @ schedule)
               (take (Suc (length (takeWhile (lookup_ok w) (page_schedules p))))
                  (page_schedules p))"
    using assms by (simp add: getOffered_run_def offered_loop_requests)
  have 2: "take (Suc (length (takeWhile (lookup_ok w) (page_schedules p)))) (page_schedules p)
        = page_schedules p"
    if "list_all (lookup_ok w) (page_schedules p)"
  proof -
    from that have "\<forall>x \<in> set (page_schedules p). lookup_ok w x"
      by (simp add: list_all_iff)
    then have "takeWhile (lookup_ok w) (page_schedules p) = page_schedules p"
      by (simp only: takeWhile_eq_all_conv)
    then have "length (takeWhile (lookup_ok w) (page_schedules p))
        = length (page_schedules p)"
      by (rule arg_cong)
    then show ?thesis by (simp only: take_all_iff)
  qed
  have 3: "getOffered w subject' code' =
      Inr (map (course_of w subject' code' (page_title p))
             (filter (\<lambda>schedule. sections_at w schedule \<noteq> []) (page_schedules p)))"
    if "list_all (lookup_ok w) (page_schedules p)"
    using that assms by (simp add: getOffered_page offered_courses_def)
  show ?thesis
  proof (intro conjI impI)
    show "fst (getOffered_run w subject' code') =
           course_url subject' code' #
             map (\<lambda>schedule. SECTIONS_URL @ schedule)
               (take (Suc (length (takeWhile (lookup_ok w) (page_schedules p))))
                  (page_schedules p))"
      by (rule 1)
  next
    assume "list_all (lookup_ok w) (page_schedules p)"
    from 2 [OF this] show "fst (getOffered_run w subject' code') =
        course_url subject' code' #
          map (\<lambda>schedule. SECTIONS_URL @ schedule) (page_schedules p)"
      by (simp only: 1)
  next
    assume "list_all (lookup_ok w) (page_schedules p)"
    then show "getOffered w subject' code' =
      Inr (map (course_of w subject' code' (page_title p))
             (filter (\<lambda>schedule. sections_at w schedule \<noteq> []) (page_schedules p)))"
      by (rule 3)
  next
    assume "\<not> list_all (lookup_ok w) (page_schedules p)"
    with assms show "getOffered w subject' code' = Inl FailedAvailableSections"
      by (simp add: getOffered_page)
  qed
qed

lemma broken_page: "broken_world (course_url ''CSC'' ''225'') = Some csc225_page"
  by (simp add: broken_world_def course_url_def demo_defs)

lemma broken_sections_fall: "getSections broken_world fall_schedule = Inl FailedSections"
  by (simp add: getSections_def broken_world_def)

theorem section_lookups_are_sequential_witness:
  "demo_world (course_url ''CSC'' ''225'') = Some csc225_page
   \<and> fst (getOffered_run demo_world ''CSC'' ''225'') =
       [course_url ''CSC'' ''225'', SECTIONS_URL @ fall_schedule, SECTIONS_URL @ spring_schedule]
   \<and> getOffered demo_world ''CSC'' ''225'' =
       Inr [course_of demo_world ''CSC'' ''225'' (page_title csc225_page) fall_schedule]
   \<and> broken_world (course_url ''CSC'' ''225'') = Some csc225_page
   \<and> getSections broken_world fall_schedule = Inl FailedSections
   \<and> fst (getOffered_run broken_world ''CSC'' ''225'') =
       [course_url ''CSC'' ''225'', SECTIONS_URL @ fall_schedule]
   \<and> getOffered broken_world ''CSC'' ''225'' = Inl FailedAvailableSections"
proof -
  have ok: "list_all (lookup_ok demo_world) (page_schedules csc225_page)"
    by (simp add: demo_schedules lookup_ok_def demo_sections_fall demo_sections_spring)
  have s: "sections_at demo_world spring_schedule = []"
       "sections_at demo_world fall_schedule \<noteq> []"
    by (simp_all add: sections_at_def demo_sections_fall demo_sections_spring)
  from section_lookups_are_sequential [of demo_world "''CSC''" "''225''" csc225_page, OF demo_page]
  have 1: "fst (getOffered_run demo_world ''CSC'' ''225'') =
       [course_url ''CSC'' ''225'', SECTIONS_URL @ fall_schedule, SECTIONS_URL @ spring_schedule]
   \<and> getOffered demo_world ''CSC'' ''225'' =
       Inr [course_of demo_world ''CSC'' ''225'' (page_title csc225_page) fall_schedule]"
    using ok s by (simp add: demo_schedules)
  have no: "\<not> lookup_ok broken_world fall_schedule"
    by (simp add: lookup_ok_def broken_sections_fall)
  from section_lookups_are_sequential
    [of broken_world "''CSC''" "''225''" csc225_page, OF broken_page]
  have 2: "fst (getOffered_run broken_world ''CSC'' ''225'') =
       [course_url ''CSC'' ''225'', SECTIONS_URL @ fall_schedule]
   \<and> getOffered broken_world ''CSC'' ''225'' = Inl FailedAvailableSections"
    using no by (simp add: demo_schedules)
  from 1 2 demo_page broken_page broken_sections_fall show ?thesis
    by (simp only:)
qed

text \<open>When the first lookup fails, the lookup of the second schedule is never issued.\<close>

theorem section_lookups_concurrent_counterexample:
  "page_schedules csc225_page = [fall_schedule, spring_schedule]
   \<and> fst (getOffered_run broken_world ''CSC'' ''225'') =
       [course_url ''CSC'' ''225'', SECTIONS_URL @ fall_schedule]"
proof -
  have "fst (getOffered_run broken_world ''CSC'' ''225'') =
       [course_url ''CSC'' ''225'', SECTIONS_URL @ fall_schedule]"
    by (simp add: getOffered_run_def broken_page offered_loop_requests demo_schedules
        lookup_ok_def broken_sections_fall)
  then show ?thesis by (simp add: demo_schedules)
qed

subsection \<open>Term of a schedule\<close>

lemma term_in_match_Cons:
  "term_in_match (c # cs) =
     (if term_in_at (c # cs) then Some (takeWhile is_digit (drop 8 (c # cs)))
      else term_in_match cs)"
  by (simp add: term_in_at_def)

lemma term_in_match_None: "\<not> term_in_digits s \<Longrightarrow> term_in_match s = None"
  by (induction s) (simp_all add: term_in_match_Cons del: term_in_match.simps(2))

lemma takeWhile_not_Nil: "takeWhile P xs \<noteq> [] \<longleftrightarrow> xs \<noteq> [] \<and> P (hd xs)"
  by (cases xs) simp_all

lemma term_in_at_append: "9 \<le> length y \<Longrightarrow> term_in_at (y @ z) = term_in_at y"
proof -
  assume len: "9 \<le> length y"
  then have "take 8 (y @ z) = take 8 y"
    by simp
  moreover from len have "drop 8 y \<noteq> []"
    by simp
  then have "hd (drop 8 (y @ z)) = hd (drop 8 y)" "drop 8 (y @ z) \<noteq> []"
    by simp_all
  ultimately show ?thesis
    using \<open>drop 8 y \<noteq> []\<close> by (simp only: term_in_at_def takeWhile_not_Nil)
qed

lemma term_in_match_here:
  assumes "ds \<noteq> []" and "list_all is_digit ds" and "post = [] \<or> \<not> is_digit (hd post)"
  shows "term_in_match (''term_in='' @ ds @ post) = Some ds"
proof -
  from assms(3) have "takeWhile is_digit post = []"
    by (cases post) auto
  with assms(2) have "takeWhile is_digit (ds @ post) = ds"
    by (simp add: list_all_iff)
  with assms(1) show ?thesis by simp
qed

lemma term_in_match_leftmost:
  assumes "\<not> term_in_digits (pre @ ''term_in='')"
  shows "term_in_match (pre @ ''term_in='' @ rest) = term_in_match (''term_in='' @ rest)"
  using assms
proof (induction pre)
  case Nil
  show ?case by simp
next
  case (Cons c pre)
  from Cons.prems have a: "\<not> term_in_at ((c # pre) @ ''term_in='')"
    and b: "\<not> term_in_digits (pre @ ''term_in='')"
    by simp_all
  have "term_in_at (((c # pre) @ ''term_in='') @ rest) = term_in_at ((c # pre) @ ''term_in='')"
    by (rule term_in_at_append) simp
  with a have "\<not> term_in_at (c # (pre @ ''term_in='' @ rest))"
    by simp
  then have "term_in_match ((c # pre) @ ''term_in='' @ rest) =
      term_in_match (pre @ ''term_in='' @ rest)"
    by (simp add: term_in_match_Cons del: term_in_match.simps(2))
  with Cons.IH [OF b] show ?case by simp
qed

text \<open>\<open>term_in_digits\<close> says what its name says.\<close>

lemma term_in_at_iff:
  "term_in_at s \<longleftrightarrow> (\<exists>d q. s = ''term_in='' @ d # q \<and> is_digit d)"
proof
  assume a: "term_in_at s"
  then have "take 8 s = ''term_in='' \<and> drop 8 s \<noteq> [] \<and> is_digit (hd (drop 8 s))"
    unfolding term_in_at_def takeWhile_not_Nil .
  then have t: "take 8 s = ''term_in=''" and "drop 8 s \<noteq> []" "is_digit (hd (drop 8 s))"
    by blast+
  then obtain d q where dq: "drop 8 s = d # q" "is_digit d"
    by (cases "drop 8 s") simp_all
  have "s = take 8 s @ drop 8 s" by simp
  with t dq have "s = ''term_in='' @ d # q" by (simp only:)
  with dq(2) show "\<exists>d q. s = ''term_in='' @ d # q \<and> is_digit d" by blast
next
  assume "\<exists>d q. s = ''term_in='' @ d # q \<and> is_digit d"
  then obtain d q where "s = ''term_in='' @ d # q" "is_digit d" by blast
  then show "term_in_at s" by (simp add: term_in_at_def)
qed

lemma term_in_digits_iff:
  "term_in_digits s \<longleftrightarrow> (\<exists>p d q. s = p @ ''term_in='' @ d # q \<and> is_digit d)"
proof (induction s)
  case Nil
  show ?case by simp
next
  case (Cons c cs)
  show ?case
  proof
    assume "term_in_digits (c # cs)"
    then consider "term_in_at (c # cs)" | "term_in_digits cs" by auto
    then show "\<exists>p d q. c # cs = p @ ''term_in='' @ d # q \<and> is_digit d"
    proof cases
      case 1
      then obtain d q where "c # cs = [] @ ''term_in='' @ d # q" "is_digit d"
        unfolding term_in_at_iff by auto
      then show ?thesis by blast
    next
      case 2
      with Cons.IH obtain p d q where "cs = p @ ''term_in='' @ d # q" "is_digit d" by blast
      then have "c # cs = (c # p) @ ''term_in='' @ d # q \<and> is_digit d" by simp
      then show ?thesis by blast
    qed
  next
    assume "\<exists>p d q. c # cs = p @ ''term_in='' @ d # q \<and> is_digit d"
    then obtain p d q where e: "c # cs = p @ ''term_in='' @ d # q" "is_digit d" by blast
    show "term_in_digits (c # cs)"
    proof (cases p)
      case Nil
      with e have "term_in_at (c # cs)" unfolding term_in_at_iff by auto
      then show ?thesis by simp
    next
      case (Cons a p')
      with e have "cs = p' @ ''term_in='' @ d # q" by simp
      with e(2) Cons.IH have "term_in_digits cs" by blast
      then show ?thesis by simp
    qed
  qed
qed

lemma term_in_digits_leftmost:
  "term_in_digits s \<Longrightarrow>
   \<exists>pre ds post. s = pre @ ''term_in='' @ ds @ post
     \<and> \<not> term_in_digits (pre @ ''term_in='')
     \<and> ds \<noteq> [] \<and> list_all is_digit ds \<and> (post = [] \<or> \<not> is_digit (hd post))"
proof (induction s)
  case Nil
  then show ?case by simp
next
  case (Cons c cs)
  show ?case
  proof (cases "term_in_at (c # cs)")
    case True
    define ds where "ds = takeWhile is_digit (drop 8 (c # cs))"
    define post where "post = dropWhile is_digit (drop 8 (c # cs))"
    from True have t: "take 8 (c # cs) = ''term_in=''" and ne: "ds \<noteq> []"
      unfolding term_in_at_def ds_def by blast+
    have "c # cs = take 8 (c # cs) @ drop 8 (c # cs)"
      by (simp only: append_take_drop_id)
    also have "drop 8 (c # cs) = ds @ post"
      by (simp only: ds_def post_def takeWhile_dropWhile_id)
    finally have 1: "c # cs = [] @ ''term_in='' @ ds @ post"
      by (simp only: t append_Nil)
    have 2: "\<not> term_in_digits ([] @ ''term_in='')"
      by (simp add: term_in_at_def)
    have 3: "list_all is_digit ds"
      by (auto simp: ds_def list_all_iff dest: set_takeWhileD)
    have 4: "post = [] \<or> \<not> is_digit (hd post)"
      unfolding post_def using hd_dropWhile [of is_digit "drop 8 (c # cs)"] by blast
    from 1 2 ne 3 4 show ?thesis by blast
  next
    case False
    with Cons.prems have "term_in_digits cs" by simp
    from Cons.IH [OF this] obtain pre ds post where e: "cs = pre @ ''term_in='' @ ds @ post"
      and l: "\<not> term_in_digits (pre @ ''term_in='')"
      and r: "ds \<noteq> []" "list_all is_digit ds" "post = [] \<or> \<not> is_digit (hd post)"
      by blast
    have "term_in_at (((c # pre) @ ''term_in='') @ ds @ post) = term_in_at ((c # pre) @ ''term_in='')"
      by (rule term_in_at_append) simp
    moreover have "((c # pre) @ ''term_in='') @ ds @ post = c # cs"
      by (simp add: e)
    ultimately have "\<not> term_in_at ((c # pre) @ ''term_in='')"
      using False by metis
    with l have 2: "\<not> term_in_digits ((c # pre) @ ''term_in='')"
      by simp
    have 1: "c # cs = (c # pre) @ ''term_in='' @ ds @ post"
      by (simp add: e)
    from 1 2 r show ?thesis by blast
  qed
qed

text \<open>
  C9 (as amended). When the query string of a schedule has \<^verbatim>\<open>term_in=\<close> followed by a
  digit, the term is the run of digits after the leftmost such place: for a string
  \<open>pre @ ''term_in='' @ ds @ post\<close> with digits \<open>ds\<close>, no digit at the start of \<open>post\<close>
  and no \<^verbatim>\<open>term_in=\<close> followed by a digit inside \<open>pre @ ''term_in=''\<close>, the term is \<open>ds\<close>.
  The text is looked for anywhere in the string, inside a longer parameter name too.
  Every string with such a place has this shape.
  When no \<^verbatim>\<open>term_in=\<close> of the string is followed by a digit the term is \<^verbatim>\<open>0\<close>;
  \<open>course_term\<close> raises nothing. The terms of the records of a course are the terms of
  its schedules that have a section, in the order of the page.
\<close>

theorem course_term_from_query_string:
  "(\<not> term_in_digits (pre @ ''term_in='') \<longrightarrow> ds \<noteq> [] \<longrightarrow> list_all is_digit ds \<longrightarrow>
      (post = [] \<or> \<not> is_digit (hd post)) \<longrightarrow>
        course_term (pre @ ''term_in='' @ ds @ post) = ds)
   \<and> (\<not> term_in_digits schedule \<longrightarrow> course_term schedule = ''0'')
   \<and> (term_in_digits schedule \<longrightarrow>
        (\<exists>pre ds post. schedule = pre @ ''term_in='' @ ds @ post
           \<and> \<not> term_in_digits (pre @ ''term_in='')
           \<and> ds \<noteq> [] \<and> list_all is_digit ds \<and> (post = [] \<or> \<not> is_digit (hd post))
           \<and> course_term schedule = ds))
   \<and> (getOffered w subject' code' = Inr cs \<longrightarrow> w (course_url subject' code') = Some p \<longrightarrow>
        map term_in cs =
          map course_term (filter (\<lambda>s. sections_at w s \<noteq> []) (page_schedules p)))"
proof (intro conjI impI)
  assume "\<not> term_in_digits (pre @ ''term_in='')" "ds \<noteq> []" "list_all is_digit ds"
    "post = [] \<or> \<not> is_digit (hd post)"
  then have "term_in_match (pre @ ''term_in='' @ ds @ post) = Some ds"
    using term_in_match_leftmost [of pre "ds @ post"] term_in_match_here [of ds post]
    by simp
  with \<open>ds \<noteq> []\<close> show "course_term (pre @ ''term_in='' @ ds @ post) = ds"
    by (simp add: course_term_def)
next
  assume "\<not> term_in_digits schedule"
  then show "course_term schedule = ''0''"
    by (simp add: course_term_def term_in_match_None)
next
  assume "term_in_digits schedule"
  from term_in_digits_leftmost [OF this] obtain pre ds post
    where e: "schedule = pre @ ''term_in='' @ ds @ post"
      and l: "\<not> term_in_digits (pre @ ''term_in='')"
      and r: "ds \<noteq> []" "list_all is_digit ds" "post = [] \<or> \<not> is_digit (hd post)"
    by blast
  then have "term_in_match (pre @ ''term_in='' @ ds @ post) = Some ds"
    using term_in_match_leftmost [of pre "ds @ post"] term_in_match_here [of ds post]
    by simp
  with r(1) e have "course_term schedule = ds"
    by (simp add: course_term_def)
  with e l r show "\<exists>pre ds post. schedule = pre @ ''term_in='' @ ds @ post
           \<and> \<not> term_in_digits (pre @ ''term_in='')
           \<and> ds \<noteq> [] \<and> list_all is_digit ds \<and> (post = [] \<or> \<not> is_digit (hd post))
           \<and> course_term schedule = ds"
    by blast
next
  assume a: "getOffered w subject' code' = Inr cs" "w (course_url subject' code') = Some p"
  from getOffered_Inr [OF a(1)] a(2) have "cs = offered_courses w subject' code' p"
    by auto
  then show "map term_in cs =
      map course_term (filter (\<lambda>s. sections_at w s \<noteq> []) (page_schedules p))"
    by (simp add: offered_courses_def course_of_def)
qed

theorem course_term_from_query_string_witness:
  "course_term ''?term_in=202009&subj_in=CSC&crse_in=225'' = ''202009''
   \<and> course_term ''?term_in=&term_in=34'' = ''34''
   \<and> course_term ''?subj_in=CSC&crse_in=225'' = ''0''
   \<and> course_term ''?term_in=fall'' = ''0''
   \<and> getOffered demo_world ''CSC'' ''225'' = Inr [csc225_fall]
   \<and> map term_in [csc225_fall] = [''202009'']"
proof -
  have 1: "\<not> term_in_digits (''?'' @ ''term_in='')"
    by (simp add: term_in_at_def)
  have 2: "''202009'' \<noteq> []" "list_all is_digit ''202009''"
      "''&subj_in=CSC&crse_in=225'' = [] \<or> \<not> is_digit (hd ''&subj_in=CSC&crse_in=225'')"
    by (simp_all add: is_digit_def)
  have 3: "\<not> term_in_digits ''?subj_in=CSC&crse_in=225''"
    by (simp add: term_in_at_def)
  have 4: "filter (\<lambda>s. sections_at demo_world s \<noteq> []) (page_schedules csc225_page)
      = [fall_schedule]"
    by (simp add: demo_schedules sections_at_def demo_sections_fall demo_sections_spring)
  from course_term_from_query_string
    [of "''?''" "''202009''" "''&subj_in=CSC&crse_in=225''" "''?subj_in=CSC&crse_in=225''"
      demo_world "''CSC''" "''225''" "[csc225_fall]" csc225_page]
  have a: "course_term ''?term_in=202009&subj_in=CSC&crse_in=225'' = ''202009''
     \<and> course_term ''?subj_in=CSC&crse_in=225'' = ''0''
     \<and> map term_in [csc225_fall] = [''202009'']"
    using 1 2 3 4 demo_offered demo_page by (simp add: fall_schedule_def)
  have 5: "\<not> term_in_digits (''?term_in=&'' @ ''term_in='')"
    by (simp add: term_in_at_def is_digit_def)
  have 6: "''34'' \<noteq> []" "list_all is_digit ''34''" "[] = [] \<or> \<not> is_digit (hd [])"
    by (simp_all add: is_digit_def)
  have 7: "\<not> term_in_digits ''?term_in=fall''"
    by (simp add: term_in_at_def is_digit_def)
  from course_term_from_query_string
    [of "''?term_in=&''" "''34''" "[]" "''?term_in=fall''"
      demo_world "''CSC''" "''225''" "[csc225_fall]" csc225_page]
  have b: "course_term ''?term_in=&term_in=34'' = ''34''
     \<and> course_term ''?term_in=fall'' = ''0''"
    using 5 6 7 by simp
  from a b demo_offered show ?thesis by (simp only:)
qed

text \<open>A query string whose only parameter is \<^verbatim>\<open>xterm_in\<close> has no parameter \<^verbatim>\<open>term_in\<close>, and
  its term is not \<^verbatim>\<open>0\<close>.\<close>

theorem course_term_parameter_counterexample:
  "parameter_names ''?xterm_in=007'' = [''xterm_in'']
   \<and> course_term ''?xterm_in=007'' = ''007''"
  by (simp add: parameter_names_def course_term_def is_digit_def)

subsection \<open>Section Extractor\<close>

lemma split_dash_not_Nil: "split_dash s \<noteq> []"
  by (induction s) (auto split: list.splits)

lemma length_split_dash:
  "length (split_dash s) = Suc (length (filter (\<lambda>c. c = CHR ''-'') s))"
  by (induction s) (auto split: list.splits simp: split_dash_not_Nil)

lemma split_dash_no_dash: "seg \<in> set (split_dash s) \<Longrightarrow> CHR ''-'' \<notin> set seg"
  by (induction s arbitrary: seg) (auto split: list.splits if_splits)

lemma dot_star_dash_dashes:
  "dot_star_dash r \<Longrightarrow> 1 \<le> length (filter (\<lambda>c. c = CHR ''-'') r)"
proof -
  assume "dot_star_dash r"
  then have "CHR ''-'' \<in> set r"
    by (auto simp: dot_star_dash_def dest: set_takeWhileD)
  then have "filter (\<lambda>c. c = CHR ''-'') r \<noteq> []"
    by (auto simp: filter_empty_conv)
  then show ?thesis
    by (cases "filter (\<lambda>c. c = CHR ''-'') r") simp_all
qed

lemma length_filter_dropWhile:
  "length (filter Q (dropWhile P r)) \<le> length (filter Q r)"
  by (induction r) auto

lemma after_first_dash_dashes:
  assumes "after_first_dash r"
  shows "2 \<le> length (filter (\<lambda>c. c = CHR ''-'') r)"
proof -
  from assms obtain r' where d: "dropWhile (\<lambda>c. is_digit c \<or> is_space c) r = CHR ''-'' # r'"
    and "dot_star_dash r'"
    by (auto simp: after_first_dash_def split: list.splits)
  then have "2 \<le> length (filter (\<lambda>c. c = CHR ''-'')
      (dropWhile (\<lambda>c. is_digit c \<or> is_space c) r))"
    using dot_star_dash_dashes [of r'] by simp
  with length_filter_dropWhile [of "\<lambda>c. c = CHR ''-''" "\<lambda>c. is_digit c \<or> is_space c" r]
  show ?thesis by linarith
qed

lemma section_pattern_dashes:
  "section_pattern s \<Longrightarrow> 3 \<le> length (filter (\<lambda>c. c = CHR ''-'') s)"
proof (induction s)
  case Nil
  then show ?case by simp
next
  case (Cons c cs)
  then consider "c = CHR ''-''" "after_first_dash cs" | "section_pattern cs"
    by auto
  then show ?case
  proof cases
    case 1
    with after_first_dash_dashes [of cs] show ?thesis by simp
  next
    case 2
    with Cons.IH show ?thesis by simp
  qed
qed

lemma section_of_accepted:
  "section_pattern t \<Longrightarrow> section_of t = Inr (section_record t) \<and> 4 \<le> length (split_dash t)"
proof -
  assume "section_pattern t"
  from section_pattern_dashes [OF this] have "4 \<le> length (split_dash t)"
    by (simp add: length_split_dash)
  then show ?thesis
    by (simp add: section_of_def section_record_def Let_def)
qed

lemma section_each_eq:
  "section_each a acc = Inr (if section_link a then acc @ [section_record (link_text a)] else acc)"
  by (simp add: section_each_def section_link_def section_of_accepted)

lemma sections_loop_eq:
  "sections_loop as acc =
     Inr (acc @ map (\<lambda>a. section_record (link_text a)) (filter section_link as))"
  by (induction as arbitrary: acc) (simp_all add: section_each_eq)

lemma getSections_page:
  "w (SECTIONS_URL @ params) = Some p \<Longrightarrow>
   getSections w params =
     Inr (map (\<lambda>a. section_record (link_text a)) (filter section_link (anchors p)))"
  by (simp add: getSections_def sections_loop_eq)

lemma getSections_fails_iff:
  "(\<exists>e. getSections w params = Inl e) \<longleftrightarrow> w (SECTIONS_URL @ params) = None"
  by (cases "w (SECTIONS_URL @ params)") (simp_all add: getSections_page, simp add: getSections_def)

lemma set_trim: "set (trim s) \<subseteq> set s"
proof -
  have "set (dropWhile is_space (rev (dropWhile is_space s))) \<subseteq> set (rev (dropWhile is_space s))"
    by (auto dest: set_dropWhileD)
  also have "\<dots> \<subseteq> set s"
    by (auto dest: set_dropWhileD)
  finally show ?thesis by (simp add: trim_def)
qed

lemma last_dropWhile: "dropWhile P xs \<noteq> [] \<Longrightarrow> last (dropWhile P xs) = last xs"
  by (induction xs) (auto split: if_splits)

lemma trim_ends:
  assumes "trim s \<noteq> []"
  shows "\<not> is_space (hd (trim s)) \<and> \<not> is_space (last (trim s))"
proof -
  define u where "u = dropWhile is_space s"
  define v where "v = dropWhile is_space (rev u)"
  have t: "trim s = rev v" by (simp add: trim_def u_def v_def)
  with assms have v: "v \<noteq> []" by simp
  then have u: "u \<noteq> []" by (auto simp: v_def)
  have "\<not> is_space (hd v)"
    using v unfolding v_def by (rule hd_dropWhile)
  moreover have "\<not> is_space (hd u)"
    using u unfolding u_def by (rule hd_dropWhile)
  moreover have "last v = hd u"
    using v u by (simp add: v_def last_dropWhile last_rev)
  ultimately show ?thesis
    using v by (simp add: t hd_rev last_rev)
qed

lemma length_charAt: "length (charAt s i) \<le> 1"
  by (simp add: charAt_def)

lemma length_slice_2_4: "length (slice s 2 4) \<le> 2"
  by (auto simp: slice_def Let_def min_def)

text \<open>
  C7 (as amended). Every Section record that the Section Extractor emits comes from a
  link whose text the pattern accepts; the text has at least four dash-delimited
  segments. The \<open>crn\<close> is the second segment without surrounding whitespace: it has no
  dash and neither begins nor ends with whitespace, and it may be empty or hold other
  characters than digits. The \<open>sectionType\<close> is the second character of the fourth
  segment and the \<open>sectionNumber\<close> its third and fourth characters: at most one and at
  most two characters, fewer when the segment is shorter.
\<close>

theorem section_fields_of_link_text:
  assumes "getSections w params = Inr ss" and "s \<in> set ss"
  shows "\<exists>p a. w (SECTIONS_URL @ params) = Some p \<and> a \<in> set (anchors p)
           \<and> section_pattern (link_text a)
           \<and> 4 \<le> length (split_dash (link_text a))
           \<and> crn s = trim (split_dash (link_text a) ! 1)
           \<and> sectionType s = charAt (split_dash (link_text a) ! 3) 1
           \<and> sectionNumber s = slice (split_dash (link_text a) ! 3) 2 4
           \<and> CHR ''-'' \<notin> set (crn s)
           \<and> (crn s = [] \<or> (\<not> is_space (hd (crn s)) \<and> \<not> is_space (last (crn s))))
           \<and> length (sectionType s) \<le> 1
           \<and> length (sectionNumber s) \<le> 2"
proof -
  from assms(1) obtain p where p: "w (SECTIONS_URL @ params) = Some p"
    by (cases "w (SECTIONS_URL @ params)") (auto simp: getSections_def)
  with assms obtain a where a: "a \<in> set (anchors p)" "section_link a"
    and s: "s = section_record (link_text a)"
    by (auto simp: getSections_page)
  from a have pat: "section_pattern (link_text a)"
    by (simp add: section_link_def)
  then have len: "4 \<le> length (split_dash (link_text a))"
    by (simp add: section_of_accepted)
  then have "split_dash (link_text a) ! 1 \<in> set (split_dash (link_text a))"
    by simp
  then have "CHR ''-'' \<notin> set (split_dash (link_text a) ! 1)"
    by (rule split_dash_no_dash)
  with set_trim [of "split_dash (link_text a) ! 1"]
  have nodash: "CHR ''-'' \<notin> set (crn s)"
    by (auto simp: s section_record_def)
  have ends: "crn s = [] \<or> (\<not> is_space (hd (crn s)) \<and> \<not> is_space (last (crn s)))"
    using trim_ends [of "split_dash (link_text a) ! 1"] by (auto simp: s section_record_def)
  have "crn s = trim (split_dash (link_text a) ! 1)"
      "sectionType s = charAt (split_dash (link_text a) ! 3) 1"
      "sectionNumber s = slice (split_dash (link_text a) ! 3) 2 4"
    by (simp_all add: s section_record_def)
  with p a(1) pat len nodash ends show ?thesis
    using length_charAt [of "split_dash (link_text a) ! 3" 1]
      length_slice_2_4 [of "split_dash (link_text a) ! 3"]
    by (intro exI [of _ p] exI [of _ a]) simp
qed

lemmas section_defs = getSections_def section_each_def section_of_def after_first_dash_def
  dot_star_dash_def trim_def charAt_def slice_def SECTIONS_URL_def

lemma lecture_sections:
  "getSections lecture_world ''?term_in=202009'' =
     Inr [\<lparr>crn = ''12345'', sectionType = ''L'', sectionNumber = ''01''\<rparr>]"
  by (simp add: lecture_world_def section_defs char_defs)

theorem section_fields_of_link_text_witness:
  "getSections lecture_world ''?term_in=202009'' =
     Inr [\<lparr>crn = ''12345'', sectionType = ''L'', sectionNumber = ''01''\<rparr>]
   \<and> (\<exists>p a. lecture_world (SECTIONS_URL @ ''?term_in=202009'') = Some p \<and> a \<in> set (anchors p)
         \<and> section_pattern (link_text a)
         \<and> ''12345'' = trim (split_dash (link_text a) ! 1)
         \<and> ''L'' = charAt (split_dash (link_text a) ! 3) 1
         \<and> ''01'' = slice (split_dash (link_text a) ! 3) 2 4)"
proof -
  have m: "\<lparr>crn = ''12345'', sectionType = ''L'', sectionNumber = ''01''\<rparr>
      \<in> set [\<lparr>crn = ''12345'', sectionType = ''L'', sectionNumber = ''01''\<rparr>]"
    by simp
  from section_fields_of_link_text [OF lecture_sections m]
  obtain p a where "lecture_world (SECTIONS_URL @ ''?term_in=202009'') = Some p"
      "a \<in> set (anchors p)" "section_pattern (link_text a)"
      "''12345'' = trim (split_dash (link_text a) ! 1)"
      "''L'' = charAt (split_dash (link_text a) ! 3) 1"
      "''01'' = slice (split_dash (link_text a) ! 3) 2 4"
    by auto
  then have "\<exists>p a. lecture_world (SECTIONS_URL @ ''?term_in=202009'') = Some p
         \<and> a \<in> set (anchors p)
         \<and> section_pattern (link_text a)
         \<and> ''12345'' = trim (split_dash (link_text a) ! 1)
         \<and> ''L'' = charAt (split_dash (link_text a) ! 3) 1
         \<and> ''01'' = slice (split_dash (link_text a) ! 3) 2 4"
    by blast
  with lecture_sections show ?thesis by simp
qed

text \<open>Two accepted link texts whose records have an empty \<open>crn\<close>, a \<open>crn\<close> that is a
  letter, and empty \<open>sectionType\<close> and \<open>sectionNumber\<close>.\<close>

theorem section_fields_counterexample:
  "getSections dashes_world ''?term_in=202009'' =
     Inr [\<lparr>crn = [], sectionType = [], sectionNumber = []\<rparr>,
          \<lparr>crn = ''B'', sectionType = [], sectionNumber = []\<rparr>]"
  by (simp add: dashes_world_def section_defs char_defs)

subsection \<open>The section pattern is the language of its regular expression\<close>

lemma in_set_takeWhile_iff:
  "x \<in> set (takeWhile P r) \<longleftrightarrow> (\<exists>c q. r = c @ [x] @ q \<and> (\<forall>y \<in> set c. P y) \<and> P x)"
proof (induction r)
  case Nil
  show ?case by simp
next
  case (Cons a r)
  show ?case
  proof (cases "P a")
    case False
    have "\<not> (\<exists>c q. a # r = c @ [x] @ q \<and> (\<forall>y \<in> set c. P y) \<and> P x)"
    proof
      assume "\<exists>c q. a # r = c @ [x] @ q \<and> (\<forall>y \<in> set c. P y) \<and> P x"
      then obtain c q where e: "a # r = c @ [x] @ q" "\<forall>y \<in> set c. P y" "P x" by blast
      then show False using False by (cases c) auto
    qed
    with False show ?thesis by simp
  next
    case True
    show ?thesis
    proof
      assume "x \<in> set (takeWhile P (a # r))"
      with True consider "x = a" | "x \<in> set (takeWhile P r)" by auto
      then show "\<exists>c q. a # r = c @ [x] @ q \<and> (\<forall>y \<in> set c. P y) \<and> P x"
      proof cases
        case 1
        with True have "a # r = [] @ [x] @ r \<and> (\<forall>y \<in> set []. P y) \<and> P x" by simp
        then show ?thesis by blast
      next
        case 2
        with Cons.IH obtain c q where "r = c @ [x] @ q" "\<forall>y \<in> set c. P y" "P x" by blast
        with True have "a # r = (a # c) @ [x] @ q \<and> (\<forall>y \<in> set (a # c). P y) \<and> P x" by simp
        then show ?thesis by blast
      qed
    next
      assume "\<exists>c q. a # r = c @ [x] @ q \<and> (\<forall>y \<in> set c. P y) \<and> P x"
      then obtain c q where e: "a # r = c @ [x] @ q" "\<forall>y \<in> set c. P y" "P x" by blast
      show "x \<in> set (takeWhile P (a # r))"
      proof (cases c)
        case Nil
        with e True show ?thesis by simp
      next
        case (Cons b c')
        with e have "r = c' @ [x] @ q" "\<forall>y \<in> set c'. P y" by simp_all
        with e(3) Cons.IH have "x \<in> set (takeWhile P r)" by blast
        with True show ?thesis by simp
      qed
    qed
  qed
qed

lemma dot_star_dash_iff:
  "dot_star_dash r \<longleftrightarrow>
     (\<exists>c q. r = c @ ''-'' @ q \<and> (\<forall>y \<in> set c. \<not> is_line_terminator y))"
  by (simp add: dot_star_dash_def in_set_takeWhile_iff is_line_terminator_def)

lemma dash_not_digit_or_space: "\<not> (is_digit (CHR ''-'') \<or> is_space (CHR ''-''))"
  by (simp add: is_digit_def is_space_def)

lemma after_first_dash_iff:
  "after_first_dash r \<longleftrightarrow>
     (\<exists>b r'. r = b @ ''-'' @ r' \<and> (\<forall>y \<in> set b. is_digit y \<or> is_space y) \<and> dot_star_dash r')"
proof
  assume "after_first_dash r"
  then obtain r' where d: "dropWhile (\<lambda>c. is_digit c \<or> is_space c) r = CHR ''-'' # r'"
    and r': "dot_star_dash r'"
    by (auto simp: after_first_dash_def split: list.splits)
  have "r = takeWhile (\<lambda>c. is_digit c \<or> is_space c) r @ ''-'' @ r'"
    using takeWhile_dropWhile_id [of "\<lambda>c. is_digit c \<or> is_space c" r] d by simp
  moreover have "\<forall>y \<in> set (takeWhile (\<lambda>c. is_digit c \<or> is_space c) r). is_digit y \<or> is_space y"
    by (auto dest: set_takeWhileD)
  ultimately show "\<exists>b r'. r = b @ ''-'' @ r' \<and> (\<forall>y \<in> set b. is_digit y \<or> is_space y)
      \<and> dot_star_dash r'"
    using r' by blast
next
  assume "\<exists>b r'. r = b @ ''-'' @ r' \<and> (\<forall>y \<in> set b. is_digit y \<or> is_space y) \<and> dot_star_dash r'"
  then obtain b r' where r: "r = b @ ''-'' @ r'" and b: "\<forall>y \<in> set b. is_digit y \<or> is_space y"
    and r': "dot_star_dash r'"
    by blast
  from b have "dropWhile (\<lambda>c. is_digit c \<or> is_space c) r = CHR ''-'' # r'"
    using dash_not_digit_or_space by (simp add: r dropWhile_append)
  with r' show "after_first_dash r"
    by (simp add: after_first_dash_def)
qed

lemma section_pattern_suffix:
  "section_pattern s \<longleftrightarrow> (\<exists>p r. s = p @ ''-'' @ r \<and> after_first_dash r)"
proof (induction s)
  case Nil
  show ?case by simp
next
  case (Cons c cs)
  show ?case
  proof
    assume "section_pattern (c # cs)"
    then consider "c = CHR ''-''" "after_first_dash cs" | "section_pattern cs" by auto
    then show "\<exists>p r. c # cs = p @ ''-'' @ r \<and> after_first_dash r"
    proof cases
      case 1
      then have "c # cs = [] @ ''-'' @ cs \<and> after_first_dash cs" by simp
      then show ?thesis by blast
    next
      case 2
      with Cons.IH obtain p r where "cs = p @ ''-'' @ r" "after_first_dash r" by blast
      then have "c # cs = (c # p) @ ''-'' @ r \<and> after_first_dash r" by simp
      then show ?thesis by blast
    qed
  next
    assume "\<exists>p r. c # cs = p @ ''-'' @ r \<and> after_first_dash r"
    then obtain p r where e: "c # cs = p @ ''-'' @ r" "after_first_dash r" by blast
    show "section_pattern (c # cs)"
    proof (cases p)
      case Nil
      with e show ?thesis by simp
    next
      case (Cons a p')
      with e have "cs = p' @ ''-'' @ r" by simp
      with e(2) Cons.IH have "section_pattern cs" by blast
      then show ?thesis by simp
    qed
  qed
qed

text \<open>A text passes the test exactly when some substring of it is a word of
  \<^verbatim>\<open>[\w\s]*-[\d\s]*-.*-.*\<close>.\<close>

lemma section_pattern_iff:
  "section_pattern s \<longleftrightarrow>
     (\<exists>p a b c d q. s = p @ a @ ''-'' @ b @ ''-'' @ c @ ''-'' @ d @ q
        \<and> (\<forall>y \<in> set a. is_word y \<or> is_space y)
        \<and> (\<forall>y \<in> set b. is_digit y \<or> is_space y)
        \<and> (\<forall>y \<in> set c. \<not> is_line_terminator y)
        \<and> (\<forall>y \<in> set d. \<not> is_line_terminator y))"
proof
  assume "section_pattern s"
  then obtain p b c q where "s = p @ ''-'' @ b @ ''-'' @ c @ ''-'' @ q"
      "\<forall>y \<in> set b. is_digit y \<or> is_space y" "\<forall>y \<in> set c. \<not> is_line_terminator y"
    by (auto simp: section_pattern_suffix after_first_dash_iff dot_star_dash_iff)
  then have "s = p @ [] @ ''-'' @ b @ ''-'' @ c @ ''-'' @ [] @ q
        \<and> (\<forall>y \<in> set []. is_word y \<or> is_space y)
        \<and> (\<forall>y \<in> set b. is_digit y \<or> is_space y)
        \<and> (\<forall>y \<in> set c. \<not> is_line_terminator y)
        \<and> (\<forall>y \<in> set []. \<not> is_line_terminator y)"
    by simp
  then show "\<exists>p a b c d q. s = p @ a @ ''-'' @ b @ ''-'' @ c @ ''-'' @ d @ q
        \<and> (\<forall>y \<in> set a. is_word y \<or> is_space y)
        \<and> (\<forall>y \<in> set b. is_digit y \<or> is_space y)
        \<and> (\<forall>y \<in> set c. \<not> is_line_terminator y)
        \<and> (\<forall>y \<in> set d. \<not> is_line_terminator y)"
    by blast
next
  assume "\<exists>p a b c d q. s = p @ a @ ''-'' @ b @ ''-'' @ c @ ''-'' @ d @ q
        \<and> (\<forall>y \<in> set a. is_word y \<or> is_space y)
        \<and> (\<forall>y \<in> set b. is_digit y \<or> is_space y)
        \<and> (\<forall>y \<in> set c. \<not> is_line_terminator y)
        \<and> (\<forall>y \<in> set d. \<not> is_line_terminator y)"
  then obtain p a b c d q where s: "s = p @ a @ ''-'' @ b @ ''-'' @ c @ ''-'' @ d @ q"
    and b: "\<forall>y \<in> set b. is_digit y \<or> is_space y"
    and c: "\<forall>y \<in> set c. \<not> is_line_terminator y"
    by blast
  from c have "dot_star_dash (c @ ''-'' @ d @ q)"
    unfolding dot_star_dash_iff by blast
  with b have "after_first_dash (b @ ''-'' @ c @ ''-'' @ d @ q)"
    unfolding after_first_dash_iff by blast
  moreover have "s = (p @ a) @ ''-'' @ (b @ ''-'' @ c @ ''-'' @ d @ q)"
    by (simp add: s)
  ultimately show "section_pattern s"
    unfolding section_pattern_suffix by blast
qed

subsection \<open>The larger catalog, evaluated\<close>

lemmas campus_defs = campus_world_def repaired_world_def demo_world_def BASE_URL_def
  SECTIONS_URL_def fall_schedule_def spring_schedule_def fall370_schedule_def
  winter370_schedule_def

lemma campus_departments: "getDepartments campus_world = Inr [''CSC'', ''MATH'']"
proof -
  have "campus_world BASE_URL = demo_world BASE_URL"
    by (simp add: campus_defs)
  then have "getDepartments campus_world = getDepartments demo_world"
    by (simp add: getDepartments_def)
  then show ?thesis by (simp add: demo_departments)
qed

lemma campus_codes_CSC: "getCourseCodes campus_world ''CSC'' = Inr [''225'', ''370'']"
  by (simp add: getCourseCodes_def campus_defs csc_courses_page_def course_each_def
      course_pattern_def slice_def char_defs)

lemma campus_codes_MATH: "getCourseCodes campus_world ''MATH'' = Inr [''100'']"
  by (simp add: getCourseCodes_def campus_defs math_page_def course_each_def
      course_pattern_def slice_def char_defs)

lemma campus_sections_fall: "getSections campus_world fall_schedule = getSections demo_world fall_schedule"
  by (simp add: getSections_def campus_defs)

lemma campus_sections_spring: "getSections campus_world spring_schedule = Inr []"
  by (simp add: getSections_def campus_defs empty_page_def)

lemma campus_sections_fall370:
  "getSections campus_world fall370_schedule =
     Inr [\<lparr>crn = ''20001'', sectionType = ''A'', sectionNumber = ''01''\<rparr>]"
  by (simp add: campus_defs db_sections_page_def section_defs char_defs)

lemma campus_sections_winter370:
  "getSections campus_world winter370_schedule =
     Inr [\<lparr>crn = ''20001'', sectionType = ''A'', sectionNumber = ''01''\<rparr>]"
  by (simp add: campus_defs db_sections_page_def section_defs char_defs)

lemma campus_page_225: "campus_world (course_url ''CSC'' ''225'') = Some csc225_page"
  by (simp add: course_url_def campus_defs)

lemma campus_page_370: "campus_world (course_url ''CSC'' ''370'') = Some csc370_page"
  by (simp add: course_url_def campus_defs)

lemma campus_page_100: "campus_world (course_url ''MATH'' ''100'') = Some math100_page"
  by (simp add: course_url_def campus_defs)

lemma schedules_370: "page_schedules csc370_page = [fall370_schedule, winter370_schedule]"
  by (simp add: page_schedules_def csc370_page_def schedule_each_def slice_def
      SECTIONS_URL_def fall370_schedule_def winter370_schedule_def)

lemma schedules_100: "page_schedules math100_page = [fall_schedule]"
  by (simp add: page_schedules_def math100_page_def schedule_each_def slice_def
      SECTIONS_URL_def fall_schedule_def)

lemma terms_370:
  "course_term fall370_schedule = ''202009''" "course_term winter370_schedule = ''202101''"
  by (simp_all add: course_term_def fall370_schedule_def winter370_schedule_def char_defs)

lemma titles_370_100:
  "page_title csc370_page = ''Database Systems''" "page_title math100_page = ''Calculus I''"
  by (simp_all add: page_title_def csc370_page_def math100_page_def)

lemma campus_offered_225: "getOffered campus_world ''CSC'' ''225'' = Inr [csc225_fall]"
  by (simp add: getOffered_page [of campus_world "''CSC''" "''225''" csc225_page, OF campus_page_225]
      demo_schedules lookup_ok_def campus_sections_fall demo_sections_fall
      campus_sections_spring offered_courses_def sections_at_def course_of_def demo_term
      demo_title csc225_fall_def)

lemma campus_offered_370:
  "getOffered campus_world ''CSC'' ''370'' = Inr [csc370_fall, csc370_winter]"
  by (simp add: getOffered_page [of campus_world "''CSC''" "''370''" csc370_page, OF campus_page_370]
      schedules_370 lookup_ok_def campus_sections_fall370 campus_sections_winter370
      offered_courses_def sections_at_def course_of_def terms_370 titles_370_100
      csc370_fall_def csc370_winter_def)

lemma campus_offered_100: "getOffered campus_world ''MATH'' ''100'' = Inr [math100_fall]"
  by (simp add: getOffered_page [of campus_world "''MATH''" "''100''" math100_page, OF campus_page_100]
      schedules_100 lookup_ok_def campus_sections_fall demo_sections_fall
      offered_courses_def sections_at_def course_of_def demo_term titles_370_100
      math100_fall_def)

lemma campus_main: "main t campus_world = Some (Inr campus_crawl)"
  by (simp add: main_eq campus_departments department_fails_def department_courses_def
      courses_at_def campus_codes_CSC campus_codes_MATH campus_offered_225
      campus_offered_370 campus_offered_100 campus_crawl_def)

lemma campus_listed:
  "listed_departments catalog_page = [''CSC'', ''MATH'']"
  "listed_codes csc_courses_page = [''225'', ''370'']"
  "listed_schedules csc370_page = [fall370_schedule, winter370_schedule]"
proof -
  show "listed_departments catalog_page = [''CSC'', ''MATH'']"
    by (simp add: listed_departments_def targets_def catalog_page_def begins_with_upper_def
        slice_def char_defs)
  show "listed_codes csc_courses_page = [''225'', ''370'']"
    by (simp add: listed_codes_def targets_def csc_courses_page_def begins_with_digit07_def
        slice_def char_defs)
  show "listed_schedules csc370_page = [fall370_schedule, winter370_schedule]"
    using schedules_370 by (simp add: page_schedules_listed)
qed

lemma settle_orders:
  "sort_key (by_index ''CSC'') [0..<2] = [0, 1]"
  "sort_key (last_first ''CSC'') [0..<2] = [1, 0]"
proof -
  have "[0..<2] = [0, Suc 0]"
    by (simp add: upt_rec)
  then show "sort_key (by_index ''CSC'') [0..<2] = [0, 1]"
    "sort_key (last_first ''CSC'') [0..<2] = [1, 0]"
    by (simp_all add: by_index_def last_first_def)
qed

theorem crawl_result_in_discovery_order_witness:
  "main by_index campus_world = Some (Inr campus_crawl)
   \<and> main last_first campus_world = Some (Inr campus_crawl)
   \<and> sort_key (by_index ''CSC'') [0..<2] = [0, 1]
   \<and> sort_key (last_first ''CSC'') [0..<2] = [1, 0]
   \<and> campus_world BASE_URL = Some catalog_page
   \<and> listed_departments catalog_page = [''CSC'', ''MATH'']
   \<and> campus_world (BASE_URL @ ''CSC'') = Some csc_courses_page
   \<and> listed_codes csc_courses_page = [''225'', ''370'']
   \<and> campus_world (course_url ''CSC'' ''370'') = Some csc370_page
   \<and> listed_schedules csc370_page = [fall370_schedule, winter370_schedule]
   \<and> results campus_crawl = [csc225_fall, csc370_fall, csc370_winter, math100_fall]"
proof -
  from crawl_result_in_discovery_order [OF campus_main [of by_index]]
  have "\<forall>t'. main t' campus_world = Some (Inr campus_crawl)"
    by blast
  then have "main by_index campus_world = Some (Inr campus_crawl)"
      "main last_first campus_world = Some (Inr campus_crawl)"
    by simp_all
  moreover have "campus_world BASE_URL = Some catalog_page"
      "campus_world (BASE_URL @ ''CSC'') = Some csc_courses_page"
    by (simp_all add: campus_defs)
  moreover have "results campus_crawl = [csc225_fall, csc370_fall, csc370_winter, math100_fall]"
    by (simp add: campus_crawl_def)
  ultimately show ?thesis
    using settle_orders campus_listed campus_page_370 by (simp only:)
qed

subsection \<open>A failing aggregation and a listing with a duplicate\<close>













end
